theory Spec2Isabelle
  imports Complex_Main "HOL-Library.Sublist"
begin

section \<open>Python values, errors and strings\<close>

text \<open>
  The engine of \<^verbatim>\<open>application.py\<close> scores the rows of a patient table against a rule
  document. Scores are Python floats; they are modelled as exact rationals, so the
  rounding of IEEE doubles is left out (the values \<open>0.0\<close>, \<open>1.0\<close>, \<open>0.5\<close> and \<open>3.0\<close> that occur in
  the tests below are exact in both). Strings are ASCII texts.

  Exceptions are values: a function that can raise returns \<open>error + 'a\<close>.
  \<open>NotModelled\<close> is returned only by the model of \<^verbatim>\<open>ast.literal_eval\<close> below, on texts
  outside the fragment of Python's literal syntax it covers.
\<close>

datatype error = TypeError | AttributeError | ValueError | SyntaxError | OSError | NotModelled

text \<open>\<^verbatim>\<open>str.lower()\<close> on ASCII: an upper-case letter gets bit 5 set.\<close>

definition lower_char :: "char \<Rightarrow> char" where
  "lower_char c = (let n = (of_char c :: nat) in
     if 65 \<le> n \<and> n \<le> 90
     then (case c of Char b0 b1 b2 b3 b4 b5 b6 b7 \<Rightarrow> Char b0 b1 b2 b3 b4 True b6 b7)
     else c)"

definition lower :: "string \<Rightarrow> string" where
  "lower s = map lower_char s"

text \<open>\<^verbatim>\<open>str.strip()\<close>: the ASCII characters for which \<^verbatim>\<open>str.isspace\<close> holds are removed
  at both ends.\<close>

definition is_space :: "char \<Rightarrow> bool" where
  "is_space c = ((of_char c :: nat) \<in> {9, 10, 11, 12, 13, 28, 29, 30, 31, 32})"

definition strip :: "string \<Rightarrow> string" where
  "strip s = rev (dropWhile is_space (rev (dropWhile is_space s)))"

text \<open>\<^verbatim>\<open>sub in s\<close> on strings: \<open>sub\<close> occurs in \<open>s\<close> as a contiguous substring.\<close>

fun str_in :: "string \<Rightarrow> string \<Rightarrow> bool" where
  "str_in sub [] = (sub = [])"
| "str_in sub (c # cs) = (prefix sub (c # cs) \<or> str_in sub cs)"

text \<open>
  A cell of one of the list-valued columns of the patient table. \<^verbatim>\<open>pd.read_csv\<close> yields
  a \<^verbatim>\<open>str\<close> for a cell with text and the float NaN for an empty cell; a caller that builds
  a \<^verbatim>\<open>Patient\<close> by hand may store a list of strings.
\<close>

datatype cell = CStr string | CList "string list" | CNaN

text \<open>\<^verbatim>\<open>for x in cell\<close>: a string yields its characters, each as a string of length one;
  a list yields its entries; a float is not iterable.\<close>

fun py_iter :: "cell \<Rightarrow> error + string list" where
  "py_iter (CStr s) = Inr (map (\<lambda>c. [c]) s)"
| "py_iter (CList xs) = Inr xs"
| "py_iter CNaN = Inl TypeError"

text \<open>The items that \<^verbatim>\<open>set(ast.literal_eval(text))\<close> iterates over.\<close>

datatype pyval = PStr string | PInt int

section \<open>Data model\<close>

record patient_data =
  col_subject_id :: int
  col_first_name :: string
  col_last_name :: string
  col_age :: int
  col_gender :: string
  col_prescriptions :: cell
  col_prescriptions_poe :: cell
  col_prescriptions_generic :: cell
  col_icd9_codes :: cell

text \<open>\<^verbatim>\<open>class Patient\<close>.\<close>

record patient =
  patient_index :: nat
  patient_data :: patient_data
  score :: rat

text \<open>
  A rule of the rule document, by its \<^verbatim>\<open>"type"\<close>, with the keys the engine reads for that
  type: \<^verbatim>\<open>rule.get("min")\<close> and \<^verbatim>\<open>rule.get("max")\<close> (absent keys read as \<^verbatim>\<open>None\<close>),
  \<^verbatim>\<open>rule["gender"]\<close>, \<^verbatim>\<open>rule["medications"]\<close>, \<^verbatim>\<open>rule["icd9_codes"]\<close>. \<open>Other t\<close> is a
  rule whose type \<open>t\<close> is none of the four the engine compares with.
\<close>

datatype rule =
    Age "int option" "int option"
  | Gender int
  | Medications "string list"
  | PreexistingConditions "string list"
  | Other string

datatype inclusion_entry = Inclusion (in_rule: rule) (weight: rat)

datatype exclusion_entry = Exclusion (ex_rule: rule)

record rule_document =
  inclusion_criterium :: "inclusion_entry list"
  exclusion_criterium :: "exclusion_entry list"

section \<open>Rule evaluators\<close>

text \<open>\<^verbatim>\<open>Engine.age\<close>.\<close>

definition age :: "patient \<Rightarrow> int option \<Rightarrow> int option \<Rightarrow> rat" where
  "age p mn mx = (let a = col_age (patient_data p) in
     if (case mn of None \<Rightarrow> False | Some m \<Rightarrow> a < m) then 0
     else if (case mx of None \<Rightarrow> False | Some m \<Rightarrow> a > m) then 0
     else 1)"

text \<open>\<^verbatim>\<open>Engine.gender\<close>.\<close>

definition gender :: "patient \<Rightarrow> int \<Rightarrow> rat" where
  "gender p g =
     (if g = 0 then (if col_gender (patient_data p) = ''M'' then 1 else 0)
      else if g = 1 then (if col_gender (patient_data p) = ''F'' then 1 else 0)
      else if g = 2 then 1
      else 0)"

text \<open>
  \<^verbatim>\<open>Engine.medications\<close>. The three nested loops, innermost first; \<open>matches\<close> is the
  counter the loops increment.
\<close>

fun scan_entries :: "string \<Rightarrow> string list \<Rightarrow> nat \<Rightarrow> nat" where
  "scan_entries med [] matches = matches"
| "scan_entries med (patient_med # rest) matches =
     scan_entries med rest
       (if str_in med (strip (lower patient_med)) then matches + 1 else matches)"

fun scan_columns :: "string \<Rightarrow> cell list \<Rightarrow> nat \<Rightarrow> error + nat" where
  "scan_columns med [] matches = Inr matches"
| "scan_columns med (col # cols) matches =
     (case py_iter col of
        Inl e \<Rightarrow> Inl e
      | Inr entries \<Rightarrow> scan_columns med cols (scan_entries med entries matches))"

definition columns :: "patient \<Rightarrow> cell list" where
  "columns p = [col_prescriptions (patient_data p), col_prescriptions_poe (patient_data p),
                col_prescriptions_generic (patient_data p)]"

fun scan_medications :: "patient \<Rightarrow> string list \<Rightarrow> nat \<Rightarrow> error + nat" where
  "scan_medications p [] matches = Inr matches"
| "scan_medications p (med # meds) matches =
     (case scan_columns (strip (lower med)) (columns p) matches of
        Inl e \<Rightarrow> Inl e
      | Inr matches' \<Rightarrow> scan_medications p meds matches')"

definition medications :: "patient \<Rightarrow> string list \<Rightarrow> error + rat" where
  "medications p meds =
     (case scan_medications p meds 0 of
        Inl e \<Rightarrow> Inl e
      | Inr matches \<Rightarrow>
          let total = length meds in
          Inr (if total > 0 then of_nat matches / of_nat total else 0))"

text \<open>
  \<^verbatim>\<open>Engine.preexisting_conditions\<close>. \<open>lit\<close> stands for the library call
  \<^verbatim>\<open>ast.literal_eval\<close> followed by the iteration of \<^verbatim>\<open>set(...)\<close>: the items of the literal,
  or the exception raised. \<^verbatim>\<open>.strip()\<close> on a cell that is not a string raises
  \<^verbatim>\<open>AttributeError\<close>.
\<close>

definition preexisting_conditions ::
  "(string \<Rightarrow> error + pyval list) \<Rightarrow> patient \<Rightarrow> string list \<Rightarrow> error + rat" where
  "preexisting_conditions lit p study_icd9_codes =
     (case col_icd9_codes (patient_data p) of
        CStr text \<Rightarrow>
          (let patient_text = lower (strip text);
               study_list = map (\<lambda>x. lower (strip x)) study_icd9_codes
           in case lit patient_text of
                Inl e \<Rightarrow> Inl e
              | Inr items \<Rightarrow>
                  let patient_set = set items;
                      study_set = PStr ` set study_list;
                      set_diff = patient_set \<inter> study_set
                  in Inr (if card study_set > 0
                          then of_nat (card set_diff) / of_nat (card study_set) else 0))
      | _ \<Rightarrow> Inl AttributeError)"

subsection \<open>A fragment of \<^verbatim>\<open>ast.literal_eval\<close>\<close>

text \<open>
  The list displays \<^verbatim>\<open>['a', "b", ...]\<close> of plain string literals: printable ASCII without
  backslash between matching quotes, items separated by commas, spaces and tabs between
  tokens, an optional trailing comma. On such a text Python returns the list of the
  strings. The empty text is a \<^verbatim>\<open>SyntaxError\<close>. Every other text is outside the fragment.
\<close>

datatype lit_state = LStart | LOpen | LInStr char string | LAfterItem | LAfterComma | LEnd

definition is_blank :: "char \<Rightarrow> bool" where
  "is_blank c = (c = CHR 0x20 \<or> c = CHR 0x09)"

definition is_quote :: "char \<Rightarrow> bool" where
  "is_quote c = (c = CHR 0x27 \<or> c = CHR 0x22)"

definition is_plain :: "char \<Rightarrow> bool" where
  "is_plain c = (32 \<le> (of_char c :: nat) \<and> (of_char c :: nat) \<le> 126 \<and> c \<noteq> CHR 0x5C)"

fun literal_scan :: "lit_state \<Rightarrow> pyval list \<Rightarrow> string \<Rightarrow> error + pyval list" where
  "literal_scan st items [] =
     (if st = LEnd then Inr items else if st = LStart then Inl SyntaxError else Inl NotModelled)"
| "literal_scan LStart items (c # cs) =
     (if is_blank c then literal_scan LStart items cs
      else if c = CHR 0x5B then literal_scan LOpen items cs
      else Inl NotModelled)"
| "literal_scan LOpen items (c # cs) =
     (if is_blank c then literal_scan LOpen items cs
      else if is_quote c then literal_scan (LInStr c []) items cs
      else if c = CHR 0x5D then literal_scan LEnd items cs
      else Inl NotModelled)"
| "literal_scan (LInStr q acc) items (c # cs) =
     (if c = q then literal_scan LAfterItem (items @ [PStr acc]) cs
      else if is_plain c then literal_scan (LInStr q (acc @ [c])) items cs
      else Inl NotModelled)"
| "literal_scan LAfterItem items (c # cs) =
     (if is_blank c then literal_scan LAfterItem items cs
      else if c = CHR 0x2C then literal_scan LAfterComma items cs
      else if c = CHR 0x5D then literal_scan LEnd items cs
      else Inl NotModelled)"
| "literal_scan LAfterComma items (c # cs) =
     (if is_blank c then literal_scan LAfterComma items cs
      else if is_quote c then literal_scan (LInStr c []) items cs
      else if c = CHR 0x5D then literal_scan LEnd items cs
      else Inl NotModelled)"
| "literal_scan LEnd items (c # cs) =
     (if is_blank c then literal_scan LEnd items cs else Inl NotModelled)"

definition literal_eval :: "string \<Rightarrow> error + pyval list" where
  "literal_eval text = literal_scan LStart [] text"

section \<open>The scoring engine\<close>

text \<open>
  The line written to \<^verbatim>\<open>exclusion_reasons.txt\<close> for an excluded patient is an f-string
  over the patient index, the offending cell and the rule's parameters. The model keeps
  these values and leaves the rendering as text out. For a gender rule the line names
  \<^verbatim>\<open>'M'\<close> when the rule's parameter is 0 and \<^verbatim>\<open>'F'\<close> otherwise.
\<close>

datatype exclusion_reason =
    AgeReason nat int "int option" "int option"
  | GenderReason nat string string
  | MedicationsReason nat cell "string list"
  | ConditionsReason nat cell "string list"

text \<open>The text file behind \<^verbatim>\<open>self.exclusion_log_file\<close>, with the lines written so far.\<close>

datatype log_file = Open "exclusion_reason list" | Closed "exclusion_reason list"

text \<open>
  What the file system does to the engine's writes: whether the write that follows \<open>n\<close>
  earlier lines succeeds, whether \<^verbatim>\<open>to_csv\<close> succeeds, whether \<^verbatim>\<open>close\<close> succeeds. A failing
  call raises \<^verbatim>\<open>OSError\<close>.
\<close>

record io_env =
  write_ok :: "nat \<Rightarrow> bool"
  to_csv_ok :: bool
  close_ok :: bool

definition file_write :: "io_env \<Rightarrow> log_file \<Rightarrow> exclusion_reason \<Rightarrow> error + log_file" where
  "file_write io f line =
     (case f of
        Closed ls \<Rightarrow> Inl ValueError
      | Open ls \<Rightarrow> if write_ok io (length ls) then Inr (Open (ls @ [line])) else Inl OSError)"

definition file_close :: "io_env \<Rightarrow> log_file \<Rightarrow> error + log_file" where
  "file_close io f =
     (case f of
        Closed ls \<Rightarrow> Inr (Closed ls)
      | Open ls \<Rightarrow> if close_ok io then Inr (Closed ls) else Inl OSError)"

text \<open>A row of \<^verbatim>\<open>self.patient_scores\<close>, later of \<^verbatim>\<open>patient_scores.csv\<close>.\<close>

record score_entry =
  log_patient_index :: nat
  log_subject_id :: int
  log_first_name :: string
  log_last_name :: string
  log_score :: rat

text \<open>\<^verbatim>\<open>class Engine\<close>: the attributes that \<^verbatim>\<open>sort_patients\<close> reads and updates.\<close>

record engine =
  rules :: rule_document
  log_folder :: "string option"
  exclusion_log_file :: "log_file option"
  patient_scores :: "score_entry list"

text \<open>\<^verbatim>\<open>if self.log_folder:\<close> holds for a string that is not empty.\<close>

definition truthy :: "string option \<Rightarrow> bool" where
  "truthy folder = (case folder of None \<Rightarrow> False | Some s \<Rightarrow> s \<noteq> [])"

text \<open>\<^verbatim>\<open>Engine.__init__\<close>, on a file system that lets it create the folder and the file.\<close>

definition Engine :: "rule_document \<Rightarrow> string option \<Rightarrow> engine" where
  "Engine rs folder =
     (if truthy folder
      then \<lparr>rules = rs, log_folder = folder, exclusion_log_file = Some (Open []),
            patient_scores = []\<rparr>
      else \<lparr>rules = rs, log_folder = folder, exclusion_log_file = None, patient_scores = []\<rparr>)"

text \<open>The first loop of \<^verbatim>\<open>sort_patients\<close>: one \<^verbatim>\<open>Patient\<close> per row, indexed from 0.\<close>

definition load_patients :: "patient_data list \<Rightarrow> patient list" where
  "load_patients rows =
     map (\<lambda>(index, row). \<lparr>patient_index = index, patient_data = row, score = 0\<rparr>)
       (enumerate 0 rows)"

text \<open>The loop over the inclusion entries; \<open>s\<close> is the local \<^verbatim>\<open>score\<close>.\<close>

fun apply_inclusion ::
  "(string \<Rightarrow> error + pyval list) \<Rightarrow> patient \<Rightarrow> inclusion_entry list \<Rightarrow> rat \<Rightarrow> error + rat" where
  "apply_inclusion lit p [] s = Inr s"
| "apply_inclusion lit p (c # cs) s =
     (case in_rule c of
        Age mn mx \<Rightarrow> apply_inclusion lit p cs (s + age p mn mx * weight c)
      | Gender g \<Rightarrow> apply_inclusion lit p cs (s + gender p g * weight c)
      | Medications meds \<Rightarrow>
          (case medications p meds of
             Inl e \<Rightarrow> Inl e
           | Inr v \<Rightarrow> apply_inclusion lit p cs (s + v * weight c))
      | PreexistingConditions codes \<Rightarrow>
          (case preexisting_conditions lit p codes of
             Inl e \<Rightarrow> Inl e
           | Inr v \<Rightarrow> apply_inclusion lit p cs (s + v * weight c))
      | Other t \<Rightarrow> apply_inclusion lit p cs s)"

text \<open>
  What each of the four violation branches does: the score becomes 0, the reason is
  written when a log file is there, and the loop ends.
\<close>

definition exclude ::
  "io_env \<Rightarrow> patient \<Rightarrow> exclusion_reason \<Rightarrow> log_file option \<Rightarrow> error + patient \<times> log_file option" where
  "exclude io p reason file =
     (case file of
        None \<Rightarrow> Inr (p\<lparr>score := 0\<rparr>, None)
      | Some f \<Rightarrow>
          (case file_write io f reason of
             Inl e \<Rightarrow> Inl e
           | Inr f' \<Rightarrow> Inr (p\<lparr>score := 0\<rparr>, Some f')))"

text \<open>The loop over the exclusion entries.\<close>

fun apply_exclusion ::
  "(string \<Rightarrow> error + pyval list) \<Rightarrow> io_env \<Rightarrow> patient \<Rightarrow> exclusion_entry list \<Rightarrow>
     log_file option \<Rightarrow> error + patient \<times> log_file option" where
  "apply_exclusion lit io p [] file = Inr (p, file)"
| "apply_exclusion lit io p (c # cs) file =
     (case ex_rule c of
        Age mn mx \<Rightarrow>
          if age p mn mx = 0
          then exclude io p
                 (AgeReason (patient_index p) (col_age (patient_data p)) mn mx) file
          else apply_exclusion lit io p cs file
      | Gender g \<Rightarrow>
          if gender p g = 0
          then exclude io p
                 (GenderReason (patient_index p) (col_gender (patient_data p))
                    (if g = 0 then ''M'' else ''F'')) file
          else apply_exclusion lit io p cs file
      | Medications meds \<Rightarrow>
          (case medications p meds of
             Inl e \<Rightarrow> Inl e
           | Inr v \<Rightarrow>
               if v > 0
               then exclude io p
                      (MedicationsReason (patient_index p)
                         (col_prescriptions (patient_data p)) meds) file
               else apply_exclusion lit io p cs file)
      | PreexistingConditions codes \<Rightarrow>
          (case preexisting_conditions lit p codes of
             Inl e \<Rightarrow> Inl e
           | Inr v \<Rightarrow>
               if v > 0
               then exclude io p
                      (ConditionsReason (patient_index p)
                         (col_icd9_codes (patient_data p)) codes) file
               else apply_exclusion lit io p cs file)
      | Other t \<Rightarrow> apply_exclusion lit io p cs file)"

definition score_row :: "patient \<Rightarrow> score_entry" where
  "score_row p =
     \<lparr>log_patient_index = patient_index p,
      log_subject_id = col_subject_id (patient_data p),
      log_first_name = col_first_name (patient_data p),
      log_last_name = col_last_name (patient_data p),
      log_score = score p\<rparr>"

text \<open>The body of the loop over the patients.\<close>

definition score_patient ::
  "(string \<Rightarrow> error + pyval list) \<Rightarrow> io_env \<Rightarrow> engine \<Rightarrow> patient \<Rightarrow> error + patient \<times> engine" where
  "score_patient lit io eng p =
     (case apply_inclusion lit p (inclusion_criterium (rules eng)) 0 of
        Inl e \<Rightarrow> Inl e
      | Inr s \<Rightarrow>
          (case apply_exclusion lit io (p\<lparr>score := s\<rparr>) (exclusion_criterium (rules eng))
                  (exclusion_log_file eng) of
             Inl e \<Rightarrow> Inl e
           | Inr (p', file') \<Rightarrow>
               Inr (p', eng\<lparr>exclusion_log_file := file',
                            patient_scores := patient_scores eng @ [score_row p']\<rparr>)))"

fun score_patients ::
  "(string \<Rightarrow> error + pyval list) \<Rightarrow> io_env \<Rightarrow> engine \<Rightarrow> patient list \<Rightarrow>
     error + patient list \<times> engine" where
  "score_patients lit io eng [] = Inr ([], eng)"
| "score_patients lit io eng (p # ps) =
     (case score_patient lit io eng p of
        Inl e \<Rightarrow> Inl e
      | Inr (p', eng') \<Rightarrow>
          (case score_patients lit io eng' ps of
             Inl e \<Rightarrow> Inl e
           | Inr (ps', eng'') \<Rightarrow> Inr (p' # ps', eng'')))"

text \<open>
  \<^verbatim>\<open>patients.sort(key=lambda x: x.score, reverse=True)\<close>: Python's sort is stable, and
  with \<^verbatim>\<open>reverse=True\<close> elements with equal keys keep their original order. It is
  modelled as a stable insertion sort into descending order.
\<close>

fun insert_desc :: "patient \<Rightarrow> patient list \<Rightarrow> patient list" where
  "insert_desc x [] = [x]"
| "insert_desc x (y # ys) =
     (if score x \<ge> score y then x # y # ys else y # insert_desc x ys)"

definition sort_desc :: "patient list \<Rightarrow> patient list" where
  "sort_desc ps = foldr insert_desc ps []"

text \<open>
  What a call of \<^verbatim>\<open>sort_patients\<close> leaves behind: the list it returns, the engine's
  attributes, and the rows written to \<^verbatim>\<open>patient_scores.csv\<close> by this call (\<open>None\<close> when the
  file was not written).
\<close>

record outcome =
  ranking :: "patient list"
  engine_after :: engine
  scores_csv :: "score_entry list option"

text \<open>\<^verbatim>\<open>Engine.sort_patients\<close>, on the rows that \<^verbatim>\<open>pd.read_csv\<close> returned.\<close>

definition sort_patients ::
  "(string \<Rightarrow> error + pyval list) \<Rightarrow> io_env \<Rightarrow> engine \<Rightarrow> patient_data list \<Rightarrow> error + outcome" where
  "sort_patients lit io eng rows =
     (case score_patients lit io eng (load_patients rows) of
        Inl e \<Rightarrow> Inl e
      | Inr (patients, eng1) \<Rightarrow>
          (case (if truthy (log_folder eng1)
                 then (if to_csv_ok io then Inr (Some (patient_scores eng1)) else Inl OSError)
                 else Inr None) of
             Inl e \<Rightarrow> Inl e
           | Inr csv \<Rightarrow>
               (case (case exclusion_log_file eng1 of
                        None \<Rightarrow> Inr None
                      | Some f \<Rightarrow>
                          (case file_close io f of Inl e \<Rightarrow> Inl e | Inr f' \<Rightarrow> Inr (Some f'))) of
                  Inl e \<Rightarrow> Inl e
                | Inr file' \<Rightarrow>
                    Inr \<lparr>ranking = sort_desc patients,
                         engine_after = eng1\<lparr>exclusion_log_file := file'\<rparr>,
                         scores_csv = csv\<rparr>)))"

section \<open>Vocabulary of the claims\<close>

text \<open>
  The value of a rule's evaluator on a patient. A rule of an unsupported type has no
  evaluator; it counts as 0.
\<close>

fun evaluator_value :: "(string \<Rightarrow> error + pyval list) \<Rightarrow> patient \<Rightarrow> rule \<Rightarrow> error + rat" where
  "evaluator_value lit p (Age mn mx) = Inr (age p mn mx)"
| "evaluator_value lit p (Gender g) = Inr (gender p g)"
| "evaluator_value lit p (Medications meds) = medications p meds"
| "evaluator_value lit p (PreexistingConditions codes) = preexisting_conditions lit p codes"
| "evaluator_value lit p (Other t) = Inr 0"

fun violated :: "(string \<Rightarrow> error + pyval list) \<Rightarrow> patient \<Rightarrow> rule \<Rightarrow> error + bool" where
  "violated lit p (Age mn mx) = Inr (age p mn mx = 0)"
| "violated lit p (Gender g) = Inr (gender p g = 0)"
| "violated lit p (Medications meds) =
     (case medications p meds of Inl e \<Rightarrow> Inl e | Inr v \<Rightarrow> Inr (v > 0))"
| "violated lit p (PreexistingConditions codes) =
     (case preexisting_conditions lit p codes of Inl e \<Rightarrow> Inl e | Inr v \<Rightarrow> Inr (v > 0))"
| "violated lit p (Other t) = Inr False"

fun reason_of :: "patient \<Rightarrow> rule \<Rightarrow> exclusion_reason option" where
  "reason_of p (Age mn mx) = Some (AgeReason (patient_index p) (col_age (patient_data p)) mn mx)"
| "reason_of p (Gender g) =
     Some (GenderReason (patient_index p) (col_gender (patient_data p))
             (if g = 0 then ''M'' else ''F''))"
| "reason_of p (Medications meds) =
     Some (MedicationsReason (patient_index p) (col_prescriptions (patient_data p)) meds)"
| "reason_of p (PreexistingConditions codes) =
     Some (ConditionsReason (patient_index p) (col_icd9_codes (patient_data p)) codes)"
| "reason_of p (Other t) = None"

definition weighted_sum :: "rat list \<Rightarrow> inclusion_entry list \<Rightarrow> rat" where
  "weighted_sum vs cs = foldl (\<lambda>acc (v, c). acc + v * weight c) 0 (zip vs cs)"

text \<open>
  The first exclusion entry of a document that a patient violates, and the line the engine
  logs for the patient: the reason of that first entry, or nothing.
\<close>

fun first_violated ::
  "(string \<Rightarrow> error + pyval list) \<Rightarrow> patient \<Rightarrow> exclusion_entry list \<Rightarrow> rule option" where
  "first_violated lit p [] = None"
| "first_violated lit p (c # cs) =
     (if violated lit p (ex_rule c) = Inr True then Some (ex_rule c)
      else first_violated lit p cs)"

definition log_line ::
  "(string \<Rightarrow> error + pyval list) \<Rightarrow> patient \<Rightarrow> exclusion_entry list \<Rightarrow> exclusion_reason list" where
  "log_line lit p cs =
     (case first_violated lit p cs of
        None \<Rightarrow> []
      | Some r \<Rightarrow> (case reason_of p r of None \<Rightarrow> [] | Some l \<Rightarrow> [l]))"

text \<open>The order of the ranking: a higher score first, and among equal scores the patient
  that was read first.\<close>

definition ranks_before :: "patient \<Rightarrow> patient \<Rightarrow> bool" where
  "ranks_before a b = (score a > score b \<or> (score a = score b \<and> patient_index a < patient_index b))"

text \<open>The rule document without its entries of an unsupported type, and what a call of
  \<open>sort_patients\<close> shows to its caller and to the file system.\<close>

fun is_other :: "rule \<Rightarrow> bool" where
  "is_other (Other t) = True"
| "is_other r = False"

definition without_other :: "rule_document \<Rightarrow> rule_document" where
  "without_other rs =
     \<lparr>inclusion_criterium = filter (\<lambda>c. \<not> is_other (in_rule c)) (inclusion_criterium rs),
      exclusion_criterium = filter (\<lambda>c. \<not> is_other (ex_rule c)) (exclusion_criterium rs)\<rparr>"

definition observable ::
  "outcome \<Rightarrow> patient list \<times> log_file option \<times> score_entry list \<times> score_entry list option" where
  "observable out =
     (ranking out, exclusion_log_file (engine_after out), patient_scores (engine_after out),
      scores_csv out)"

text \<open>Two engines that differ only in that the first has dropped the unsupported entries
  of the second's rule document.\<close>

definition same_but_rules :: "engine \<Rightarrow> engine \<Rightarrow> bool" where
  "same_but_rules e2 e1 = (rules e2 = without_other (rules e1) \<and> log_folder e2 = log_folder e1 \<and>
     exclusion_log_file e2 = exclusion_log_file e1 \<and> patient_scores e2 = patient_scores e1)"

text \<open>
  The preexisting-conditions evaluator as the specification words it: the patient's list
  is parsed, and each of its codes is lower-cased and trimmed.
\<close>

definition study_codes :: "string list \<Rightarrow> string set" where
  "study_codes study = set (map (\<lambda>x. lower (strip x)) study)"

fun code_of :: "pyval \<Rightarrow> pyval" where
  "code_of (PStr c) = PStr (lower (strip c))"
| "code_of (PInt n) = PInt n"

definition preexisting_conditions_spec ::
  "(string \<Rightarrow> error + pyval list) \<Rightarrow> patient \<Rightarrow> string list \<Rightarrow> error + rat" where
  "preexisting_conditions_spec lit p study =
     (case col_icd9_codes (patient_data p) of
        CStr text \<Rightarrow>
          (case lit text of
             Inl e \<Rightarrow> Inl e
           | Inr items \<Rightarrow>
               Inr (if study_codes study = {} then 0
                    else of_nat (card (code_of ` set items \<inter> PStr ` study_codes study))
                         / of_nat (card (study_codes study))))
      | _ \<Rightarrow> Inl AttributeError)"

text \<open>The number of matches the specification counts for list-valued medication fields:
  for every target, the entries that contain it.\<close>

definition count_matches :: "string list \<Rightarrow> string list \<Rightarrow> nat" where
  "count_matches meds entries =
     (\<Sum>med\<leftarrow>meds. length (filter (\<lambda>e. str_in (strip (lower med)) (strip (lower e))) entries))"

section \<open>Sample data\<close>

definition sample_row :: "int \<Rightarrow> int \<Rightarrow> string \<Rightarrow> cell \<Rightarrow> cell \<Rightarrow> patient_data" where
  "sample_row sid a g meds icd =
     \<lparr>col_subject_id = sid, col_first_name = ''Ann'', col_last_name = ''Lee'', col_age = a,
      col_gender = g, col_prescriptions = meds, col_prescriptions_poe = CStr ''[]'',
      col_prescriptions_generic = CStr ''[]'', col_icd9_codes = icd\<rparr>"

definition sample_patient :: "nat \<Rightarrow> patient_data \<Rightarrow> rat \<Rightarrow> patient" where
  "sample_patient i row s = \<lparr>patient_index = i, patient_data = row, score = s\<rparr>"

definition aged :: "int \<Rightarrow> patient" where
  "aged a = sample_patient 0 (sample_row 10006 a ''F'' (CStr ''[]'') (CStr ''[]'')) 0"

definition io_good :: io_env where
  "io_good = \<lparr>write_ok = (\<lambda>n. True), to_csv_ok = True, close_ok = True\<rparr>"

text \<open>
  Two weighted inclusion rules and an unsupported one; an unsupported exclusion rule, then
  hypertension (ICD-9 401.9) and an age above 80 as exclusions.
\<close>

definition sample_doc :: rule_document where
  "sample_doc =
     \<lparr>inclusion_criterium =
        [Inclusion (Age (Some 50) None) (1 / 2), Inclusion (Gender 1) (1 / 2),
         Inclusion (Other ''other'') 1],
      exclusion_criterium =
        [Exclusion (Other ''other''), Exclusion (PreexistingConditions [''401.9'']),
         Exclusion (Age None (Some 80))]\<rparr>"

definition row0 :: patient_data where
  "row0 = sample_row 100 60 ''F'' (CStr ''[]'') (CStr ''[]'')"

definition row1 :: patient_data where
  "row1 = sample_row 101 40 ''F'' (CStr ''[]'') (CStr ''[]'')"

definition row2 :: patient_data where
  "row2 = sample_row 102 60 ''F'' (CStr ''[]'') (CStr ''['401.9']'')"

definition row3 :: patient_data where
  "row3 = sample_row 103 90 ''F'' (CStr ''[]'') (CStr ''['401.9']'')"

definition row4 :: patient_data where
  "row4 = sample_row 104 61 ''F'' (CStr ''[]'') (CStr ''[]'')"

definition sample_rows :: "patient_data list" where
  "sample_rows = [row0, row1, row2, row3, row4]"

definition sample_scored :: "patient list" where
  "sample_scored =
     [sample_patient 0 row0 1, sample_patient 1 row1 (1 / 2), sample_patient 2 row2 0,
      sample_patient 3 row3 0, sample_patient 4 row4 1]"

definition sample_ranking :: "patient list" where
  "sample_ranking =
     [sample_patient 0 row0 1, sample_patient 4 row4 1, sample_patient 1 row1 (1 / 2),
      sample_patient 2 row2 0, sample_patient 3 row3 0]"

definition sample_lines :: "exclusion_reason list" where
  "sample_lines =
     [ConditionsReason 2 (CStr ''['401.9']'') [''401.9''],
      ConditionsReason 3 (CStr ''['401.9']'') [''401.9'']]"

definition sample_outcome :: "string option \<Rightarrow> outcome" where
  "sample_outcome folder =
     \<lparr>ranking = sample_ranking,
      engine_after =
        \<lparr>rules = sample_doc, log_folder = folder,
         exclusion_log_file = (if truthy folder then Some (Closed sample_lines) else None),
         patient_scores = map score_row sample_scored\<rparr>,
      scores_csv = (if truthy folder then Some (map score_row sample_scored) else None)\<rparr>"

definition io_csv_fails :: io_env where
  "io_csv_fails = \<lparr>write_ok = (\<lambda>n. True), to_csv_ok = False, close_ok = True\<rparr>"

definition io_close_fails :: io_env where
  "io_close_fails = \<lparr>write_ok = (\<lambda>n. True), to_csv_ok = True, close_ok = False\<rparr>"

text \<open>A patient whose prescriptions cell is the text \<^verbatim>\<open>pd.read_csv\<close> returns for a list of
  three prescriptions, and the same patient with the list itself in the cell.\<close>

definition furosemide_csv :: patient where
  "furosemide_csv =
     sample_patient 0
       (sample_row 100 60 ''F''
          (CStr ''['furosemide', 'furosemide iv', 'insulin furosemide']'') (CStr ''[]'')) 0"

definition furosemide_list :: patient where
  "furosemide_list =
     sample_patient 0
       (sample_row 100 60 ''F''
          (CList [''furosemide'', ''furosemide iv'', ''insulin furosemide'']) (CStr ''[]'')) 0"

definition aspirin_csv :: patient where
  "aspirin_csv =
     sample_patient 2 (sample_row 102 60 ''F'' (CStr ''['aspirin 81mg']'') (CStr ''[]'')) 1"

definition coded :: "cell \<Rightarrow> patient" where
  "coded icd = sample_patient 0 (sample_row 100 60 ''F'' (CStr ''[]'') icd) 0"

section \<open>The loops of the engine\<close>

lemma apply_inclusion_values:
  "apply_inclusion lit p cs s = Inr r \<Longrightarrow>
   \<exists>vs. map (\<lambda>c. evaluator_value lit p (in_rule c)) cs = map Inr vs \<and>
        r = foldl (\<lambda>acc (v, c). acc + v * weight c) s (zip vs cs)"
proof (induction cs arbitrary: s)
  case Nil
  then show ?case by simp
next
  case (Cons c cs)
  show ?case
  proof (cases "in_rule c")
    case (Age mn mx)
    with Cons.prems have "apply_inclusion lit p cs (s + age p mn mx * weight c) = Inr r" by simp
    from Cons.IH [OF this] obtain vs where
      "map (\<lambda>c. evaluator_value lit p (in_rule c)) cs = map Inr vs"
      "r = foldl (\<lambda>acc (v, c). acc + v * weight c) (s + age p mn mx * weight c) (zip vs cs)"
      by blast
    with Age show ?thesis by (intro exI [of _ "age p mn mx # vs"]) simp
  next
    case (Gender g)
    with Cons.prems have "apply_inclusion lit p cs (s + gender p g * weight c) = Inr r" by simp
    from Cons.IH [OF this] obtain vs where
      "map (\<lambda>c. evaluator_value lit p (in_rule c)) cs = map Inr vs"
      "r = foldl (\<lambda>acc (v, c). acc + v * weight c) (s + gender p g * weight c) (zip vs cs)"
      by blast
    with Gender show ?thesis by (intro exI [of _ "gender p g # vs"]) simp
  next
    case (Medications meds)
    with Cons.prems obtain v where v: "medications p meds = Inr v"
      and "apply_inclusion lit p cs (s + v * weight c) = Inr r"
      by (auto split: sum.splits)
    from Cons.IH [OF this(2)] obtain vs where
      "map (\<lambda>c. evaluator_value lit p (in_rule c)) cs = map Inr vs"
      "r = foldl (\<lambda>acc (v, c). acc + v * weight c) (s + v * weight c) (zip vs cs)"
      by blast
    with Medications v show ?thesis by (intro exI [of _ "v # vs"]) simp
  next
    case (PreexistingConditions codes)
    with Cons.prems obtain v where v: "preexisting_conditions lit p codes = Inr v"
      and "apply_inclusion lit p cs (s + v * weight c) = Inr r"
      by (auto split: sum.splits)
    from Cons.IH [OF this(2)] obtain vs where
      "map (\<lambda>c. evaluator_value lit p (in_rule c)) cs = map Inr vs"
      "r = foldl (\<lambda>acc (v, c). acc + v * weight c) (s + v * weight c) (zip vs cs)"
      by blast
    with PreexistingConditions v show ?thesis by (intro exI [of _ "v # vs"]) simp
  next
    case (Other t)
    with Cons.prems have "apply_inclusion lit p cs s = Inr r" by simp
    from Cons.IH [OF this] obtain vs where
      "map (\<lambda>c. evaluator_value lit p (in_rule c)) cs = map Inr vs"
      "r = foldl (\<lambda>acc (v, c). acc + v * weight c) s (zip vs cs)"
      by blast
    with Other show ?thesis by (intro exI [of _ "0 # vs"]) simp
  qed
qed

lemma apply_exclusion_none:
  "\<forall>c\<in>set cs. violated lit p (ex_rule c) = Inr False \<Longrightarrow>
   apply_exclusion lit io p cs file = Inr (p, file)"
  by (induction cs) (auto split: rule.splits sum.splits)

lemma apply_exclusion_first:
  "\<forall>d\<in>set pre. violated lit p (ex_rule d) = Inr False \<Longrightarrow>
   violated lit p (ex_rule c) = Inr True \<Longrightarrow>
   \<exists>r. reason_of p (ex_rule c) = Some r \<and>
       apply_exclusion lit io p (pre @ c # post) file = exclude io p r file"
proof (induction pre)
  case Nil
  then show ?case by (cases "ex_rule c") (auto split: sum.splits)
next
  case (Cons d pre)
  then show ?case by (cases "ex_rule d") (auto split: sum.splits)
qed

lemma apply_exclusion_cases:
  "apply_exclusion lit io p cs file = Inr (p', file') \<Longrightarrow>
   (\<forall>c\<in>set cs. violated lit p (ex_rule c) = Inr False) \<or>
   (\<exists>pre c post. cs = pre @ c # post \<and>
      (\<forall>d\<in>set pre. violated lit p (ex_rule d) = Inr False) \<and>
      violated lit p (ex_rule c) = Inr True)"
proof (induction cs)
  case Nil
  then show ?case by simp
next
  case (Cons c cs)
  show ?case
  proof (cases "violated lit p (ex_rule c)")
    case (Inl e)
    with Cons.prems show ?thesis by (cases "ex_rule c") (auto split: sum.splits)
  next
    case (Inr b)
    show ?thesis
    proof (cases b)
      case True
      with Inr have "c # cs = [] @ c # cs \<and> (\<forall>d\<in>set []. violated lit p (ex_rule d) = Inr False) \<and>
        violated lit p (ex_rule c) = Inr True" by simp
      then show ?thesis by blast
    next
      case False
      with Inr Cons.prems have "apply_exclusion lit io p cs file = Inr (p', file')"
        by (cases "ex_rule c") (auto split: sum.splits if_splits)
      from Cons.IH [OF this] show ?thesis
      proof
        assume "\<forall>c\<in>set cs. violated lit p (ex_rule c) = Inr False"
        with Inr False show ?thesis by simp
      next
        assume "\<exists>pre c post. cs = pre @ c # post \<and>
          (\<forall>d\<in>set pre. violated lit p (ex_rule d) = Inr False) \<and>
          violated lit p (ex_rule c) = Inr True"
        then obtain pre c' post where "cs = pre @ c' # post"
          "\<forall>d\<in>set pre. violated lit p (ex_rule d) = Inr False"
          "violated lit p (ex_rule c') = Inr True" by blast
        with Inr False have "c # cs = (c # pre) @ c' # post \<and>
          (\<forall>d\<in>set (c # pre). violated lit p (ex_rule d) = Inr False) \<and>
          violated lit p (ex_rule c') = Inr True" by simp
        then show ?thesis by blast
      qed
    qed
  qed
qed


lemma scan_medications_cong:
  "columns q = columns p \<Longrightarrow> scan_medications q meds m = scan_medications p meds m"
  by (induction meds arbitrary: m) (auto split: sum.splits)

lemma medications_cong:
  "patient_data q = patient_data p \<Longrightarrow> medications q meds = medications p meds"
  by (simp add: medications_def scan_medications_cong [of q p] columns_def)

lemma preexisting_conditions_cong:
  "patient_data q = patient_data p \<Longrightarrow>
   preexisting_conditions lit q codes = preexisting_conditions lit p codes"
  by (simp add: preexisting_conditions_def)

lemma age_cong: "patient_data q = patient_data p \<Longrightarrow> age q mn mx = age p mn mx"
  by (simp add: age_def)

lemma gender_cong: "patient_data q = patient_data p \<Longrightarrow> gender q g = gender p g"
  by (simp add: gender_def)

lemma evaluator_value_cong:
  "patient_data q = patient_data p \<Longrightarrow> evaluator_value lit q r = evaluator_value lit p r"
  by (cases r) (simp_all add: age_cong [of q p] gender_cong [of q p] medications_cong [of q p]
      preexisting_conditions_cong [of q p])

lemma violated_cong:
  "patient_data q = patient_data p \<Longrightarrow> violated lit q r = violated lit p r"
  by (cases r) (simp_all add: age_cong [of q p] gender_cong [of q p] medications_cong [of q p]
      preexisting_conditions_cong [of q p])

lemma exclude_score:
  "exclude io p r file = Inr (p', file') \<Longrightarrow> p' = p\<lparr>score := 0\<rparr>"
  by (auto simp: exclude_def split: option.splits sum.splits)

lemma apply_exclusion_patient:
  assumes "apply_exclusion lit io p cs fl = Inr (p', fl')"
  shows "p' = p \<or> p' = p\<lparr>score := 0\<rparr>"
proof -
  from apply_exclusion_cases [OF assms] show ?thesis
  proof
    assume "\<forall>c\<in>set cs. violated lit p (ex_rule c) = Inr False"
    from apply_exclusion_none [OF this] assms show ?thesis by simp
  next
    assume "\<exists>pre c post. cs = pre @ c # post \<and>
      (\<forall>d\<in>set pre. violated lit p (ex_rule d) = Inr False) \<and>
      violated lit p (ex_rule c) = Inr True"
    then obtain pre c post where cs: "cs = pre @ c # post"
      and a: "\<forall>d\<in>set pre. violated lit p (ex_rule d) = Inr False"
      and b: "violated lit p (ex_rule c) = Inr True" by blast
    from apply_exclusion_first [OF a b]
    obtain r where "apply_exclusion lit io p (pre @ c # post) fl = exclude io p r fl" by blast
    with cs assms have "exclude io p r fl = Inr (p', fl')" by simp
    from exclude_score [OF this] show ?thesis by simp
  qed
qed

lemma score_patient_final:
  assumes "score_patient lit io eng p = Inr (p', eng')"
  shows "\<exists>vs. map (\<lambda>c. evaluator_value lit p (in_rule c)) (inclusion_criterium (rules eng)) = map Inr vs \<and>
     ((\<forall>c\<in>set (exclusion_criterium (rules eng)). violated lit p (ex_rule c) = Inr False) \<or>
      (\<exists>c\<in>set (exclusion_criterium (rules eng)). violated lit p (ex_rule c) = Inr True)) \<and>
     ((\<forall>c\<in>set (exclusion_criterium (rules eng)). violated lit p (ex_rule c) = Inr False) \<longrightarrow>
        score p' = weighted_sum vs (inclusion_criterium (rules eng))) \<and>
     ((\<exists>c\<in>set (exclusion_criterium (rules eng)). violated lit p (ex_rule c) = Inr True) \<longrightarrow>
        score p' = 0)"
proof -
  let ?incl = "inclusion_criterium (rules eng)" and ?excl = "exclusion_criterium (rules eng)"
  let ?v = "\<lambda>c. violated lit p (ex_rule c)"
  from assms obtain s file' where s: "apply_inclusion lit p ?incl 0 = Inr s"
    and ex: "apply_exclusion lit io (p\<lparr>score := s\<rparr>) ?excl (exclusion_log_file eng) = Inr (p', file')"
    by (auto simp: score_patient_def split: sum.splits)
  from apply_inclusion_values [OF s] obtain vs where
    vs: "map (\<lambda>c. evaluator_value lit p (in_rule c)) ?incl = map Inr vs"
    and sum: "s = weighted_sum vs ?incl"
    by (auto simp: weighted_sum_def)
  have same: "violated lit (p\<lparr>score := s\<rparr>) r = violated lit p r" for r
    by (rule violated_cong) simp
  have none: "score p' = s" if "\<forall>c\<in>set ?excl. ?v c = Inr False"
  proof -
    from that have "apply_exclusion lit io (p\<lparr>score := s\<rparr>) ?excl (exclusion_log_file eng)
      = Inr (p\<lparr>score := s\<rparr>, exclusion_log_file eng)"
      by (intro apply_exclusion_none) (simp add: same)
    with ex have "p' = p\<lparr>score := s\<rparr>" by (simp only: sum.inject prod.inject)
    then show ?thesis by simp
  qed
  have split: "score p' = 0" if "?excl = pre @ c # post"
    "\<forall>d\<in>set pre. ?v d = Inr False" "?v c = Inr True" for pre c post
  proof -
    from that(2,3) have "\<exists>r. reason_of (p\<lparr>score := s\<rparr>) (ex_rule c) = Some r \<and>
       apply_exclusion lit io (p\<lparr>score := s\<rparr>) (pre @ c # post) (exclusion_log_file eng)
         = exclude io (p\<lparr>score := s\<rparr>) r (exclusion_log_file eng)"
      by (intro apply_exclusion_first) (simp_all add: same)
    with ex that(1) obtain r where "exclude io (p\<lparr>score := s\<rparr>) r (exclusion_log_file eng) = Inr (p', file')"
      by auto
    from exclude_score [OF this] show ?thesis by simp
  qed
  from apply_exclusion_cases [OF ex]
  have cases: "(\<forall>c\<in>set ?excl. ?v c = Inr False) \<or>
     (\<exists>pre c post. ?excl = pre @ c # post \<and> (\<forall>d\<in>set pre. ?v d = Inr False) \<and> ?v c = Inr True)"
    by (simp add: same)
  have some: "score p' = 0" if "\<exists>c\<in>set ?excl. ?v c = Inr True"
  proof -
    from that obtain c where "c \<in> set ?excl" "?v c = Inr True" by blast
    then have "\<not> (\<forall>c\<in>set ?excl. ?v c = Inr False)" by force
    with cases split show ?thesis by blast
  qed
  from cases have dich: "(\<forall>c\<in>set ?excl. ?v c = Inr False) \<or> (\<exists>c\<in>set ?excl. ?v c = Inr True)"
    by auto
  from dich none some sum have
    "((\<forall>c\<in>set ?excl. ?v c = Inr False) \<or> (\<exists>c\<in>set ?excl. ?v c = Inr True)) \<and>
     ((\<forall>c\<in>set ?excl. ?v c = Inr False) \<longrightarrow> score p' = weighted_sum vs ?incl) \<and>
     ((\<exists>c\<in>set ?excl. ?v c = Inr True) \<longrightarrow> score p' = 0)"
    by simp
  with vs show ?thesis by (intro exI [of _ vs]) simp
qed

lemma score_patient_engine:
  assumes "score_patient lit io eng p = Inr (p', eng')"
  shows "rules eng' = rules eng \<and> log_folder eng' = log_folder eng \<and>
   patient_scores eng' = patient_scores eng @ [score_row p'] \<and>
   patient_index p' = patient_index p \<and> patient_data p' = patient_data p"
proof -
  from assms obtain s file' where
    ex: "apply_exclusion lit io (p\<lparr>score := s\<rparr>) (exclusion_criterium (rules eng))
           (exclusion_log_file eng) = Inr (p', file')"
    and eng': "eng' = eng\<lparr>exclusion_log_file := file',
                          patient_scores := patient_scores eng @ [score_row p']\<rparr>"
    by (auto simp: score_patient_def split: sum.splits)
  from apply_exclusion_patient [OF ex]
  have "patient_index p' = patient_index p \<and> patient_data p' = patient_data p" by auto
  with eng' show ?thesis by simp
qed

lemma score_patients_engine:
  "score_patients lit io eng ps = Inr (ps', eng') \<Longrightarrow>
   rules eng' = rules eng \<and> log_folder eng' = log_folder eng \<and>
   patient_scores eng' = patient_scores eng @ map score_row ps' \<and>
   map patient_index ps' = map patient_index ps \<and> map patient_data ps' = map patient_data ps"
proof (induction ps arbitrary: eng ps')
  case Nil
  then show ?case by simp
next
  case (Cons p ps)
  from Cons.prems obtain p' e1 rest where
    one: "score_patient lit io eng p = Inr (p', e1)"
    and more: "score_patients lit io e1 ps = Inr (rest, eng')" and ps': "ps' = p' # rest"
    by (auto split: sum.splits)
  from score_patient_engine [OF one] Cons.IH [OF more] ps' show ?case by simp
qed

lemma score_patients_each:
  "score_patients lit io eng ps = Inr (ps', eng') \<Longrightarrow> q \<in> set ps' \<Longrightarrow>
   \<exists>p e1 e2. p \<in> set ps \<and> rules e1 = rules eng \<and> score_patient lit io e1 p = Inr (q, e2)"
proof (induction ps arbitrary: eng ps')
  case Nil
  then show ?case by simp
next
  case (Cons p ps)
  from Cons.prems obtain p' e1 rest where
    one: "score_patient lit io eng p = Inr (p', e1)"
    and more: "score_patients lit io e1 ps = Inr (rest, eng')" and ps': "ps' = p' # rest"
    by (auto split: sum.splits)
  show ?case
  proof (cases "q = p'")
    case True
    with one show ?thesis by auto
  next
    case False
    with Cons.prems(2) ps' have "q \<in> set rest" by simp
    from Cons.IH [OF more this] score_patient_engine [OF one] show ?thesis by auto
  qed
qed

lemma set_insert_desc: "set (insert_desc x ys) = insert x (set ys)"
  by (induction ys) auto

lemma set_sort_desc: "set (sort_desc ps) = set ps"
  by (induction ps) (simp_all add: sort_desc_def set_insert_desc)

lemma length_insert_desc: "length (insert_desc x ys) = Suc (length ys)"
  by (induction ys) auto

lemma length_sort_desc: "length (sort_desc ps) = length ps"
  by (induction ps) (simp_all add: sort_desc_def length_insert_desc)

lemma sort_patients_scored:
  "sort_patients lit io eng rows = Inr out \<Longrightarrow>
   \<exists>ps eng1. score_patients lit io eng (load_patients rows) = Inr (ps, eng1)"
  by (cases "score_patients lit io eng (load_patients rows)") (auto simp: sort_patients_def)

lemma sort_patients_ranking:
  "sort_patients lit io eng rows = Inr out \<Longrightarrow>
   score_patients lit io eng (load_patients rows) = Inr (ps, eng1) \<Longrightarrow>
   ranking out = sort_desc ps \<and> patient_scores (engine_after out) = patient_scores eng1 \<and>
   scores_csv out = (if truthy (log_folder eng1) then Some (patient_scores eng1) else None)"
  by (auto simp: sort_patients_def split: sum.splits if_splits option.splits)

lemma first_violated_none:
  "\<forall>c\<in>set cs. violated lit p (ex_rule c) = Inr False \<Longrightarrow> first_violated lit p cs = None"
  by (induction cs) simp_all

lemma first_violated_split:
  "\<forall>d\<in>set pre. violated lit p (ex_rule d) = Inr False \<Longrightarrow>
   violated lit p (ex_rule c) = Inr True \<Longrightarrow>
   first_violated lit p (pre @ c # post) = Some (ex_rule c)"
  by (induction pre) simp_all

lemma exclude_log:
  "exclude io p r fl = Inr (p', fl') \<Longrightarrow>
   (fl = None \<longrightarrow> fl' = None) \<and> (\<forall>ls. fl = Some (Open ls) \<longrightarrow> fl' = Some (Open (ls @ [r])))"
  by (auto simp: exclude_def file_write_def split: option.splits sum.splits if_splits)

lemma apply_exclusion_log:
  assumes "apply_exclusion lit io p cs fl = Inr (p', fl')"
  shows "(fl = None \<longrightarrow> fl' = None) \<and>
         (\<forall>ls. fl = Some (Open ls) \<longrightarrow> fl' = Some (Open (ls @ log_line lit p cs)))"
proof -
  from apply_exclusion_cases [OF assms] show ?thesis
  proof
    assume a: "\<forall>c\<in>set cs. violated lit p (ex_rule c) = Inr False"
    from apply_exclusion_none [OF a] assms have "fl' = fl" by simp
    with first_violated_none [OF a] show ?thesis by (simp add: log_line_def)
  next
    assume "\<exists>pre c post. cs = pre @ c # post \<and>
      (\<forall>d\<in>set pre. violated lit p (ex_rule d) = Inr False) \<and>
      violated lit p (ex_rule c) = Inr True"
    then obtain pre c post where cs: "cs = pre @ c # post"
      and a: "\<forall>d\<in>set pre. violated lit p (ex_rule d) = Inr False"
      and b: "violated lit p (ex_rule c) = Inr True" by blast
    from apply_exclusion_first [OF a b]
    obtain r where r: "reason_of p (ex_rule c) = Some r"
      and "apply_exclusion lit io p (pre @ c # post) fl = exclude io p r fl" by blast
    with cs assms have "exclude io p r fl = Inr (p', fl')" by simp
    from exclude_log [OF this] first_violated_split [OF a b] r cs
    show ?thesis by (simp add: log_line_def)
  qed
qed

lemma reason_of_cong:
  "patient_data q = patient_data p \<Longrightarrow> patient_index q = patient_index p \<Longrightarrow>
   reason_of q r = reason_of p r"
  by (cases r) simp_all

lemma first_violated_cong:
  "patient_data q = patient_data p \<Longrightarrow> first_violated lit q cs = first_violated lit p cs"
  by (induction cs) (simp_all add: violated_cong [of q p])

lemma log_line_cong:
  "patient_data q = patient_data p \<Longrightarrow> patient_index q = patient_index p \<Longrightarrow>
   log_line lit q cs = log_line lit p cs"
  by (simp add: log_line_def first_violated_cong [of q p] reason_of_cong [of q p]
      cong: option.case_cong)

lemma score_patient_log:
  assumes "score_patient lit io eng p = Inr (p', eng')"
  shows "(exclusion_log_file eng = None \<longrightarrow> exclusion_log_file eng' = None) \<and>
         (\<forall>ls. exclusion_log_file eng = Some (Open ls) \<longrightarrow>
            exclusion_log_file eng' =
              Some (Open (ls @ log_line lit p (exclusion_criterium (rules eng)))))"
proof -
  from assms obtain s fl' where
    ex: "apply_exclusion lit io (p\<lparr>score := s\<rparr>) (exclusion_criterium (rules eng))
           (exclusion_log_file eng) = Inr (p', fl')"
    and eng': "eng' = eng\<lparr>exclusion_log_file := fl',
                          patient_scores := patient_scores eng @ [score_row p']\<rparr>"
    by (auto simp: score_patient_def split: sum.splits)
  have "log_line lit (p\<lparr>score := s\<rparr>) (exclusion_criterium (rules eng))
      = log_line lit p (exclusion_criterium (rules eng))"
    by (rule log_line_cong) simp_all
  with apply_exclusion_log [OF ex] eng' show ?thesis by simp
qed

lemma score_patients_log:
  "score_patients lit io eng ps = Inr (ps', eng') \<Longrightarrow>
   (exclusion_log_file eng = None \<longrightarrow> exclusion_log_file eng' = None) \<and>
   (\<forall>ls. exclusion_log_file eng = Some (Open ls) \<longrightarrow>
      exclusion_log_file eng' =
        Some (Open (ls @ concat (map (\<lambda>p. log_line lit p (exclusion_criterium (rules eng))) ps))))"
proof (induction ps arbitrary: eng ps')
  case Nil
  then show ?case by simp
next
  case (Cons p ps)
  from Cons.prems obtain p' e1 rest where
    one: "score_patient lit io eng p = Inr (p', e1)"
    and more: "score_patients lit io e1 ps = Inr (rest, eng')"
    by (auto split: sum.splits)
  from score_patient_engine [OF one] have r: "rules e1 = rules eng" by simp
  from score_patient_log [OF one] Cons.IH [OF more] show ?case unfolding r by simp
qed

lemma sort_patients_log:
  "sort_patients lit io eng rows = Inr out \<Longrightarrow>
   score_patients lit io eng (load_patients rows) = Inr (ps, eng1) \<Longrightarrow>
   (exclusion_log_file eng1 = None \<longrightarrow> exclusion_log_file (engine_after out) = None) \<and>
   (\<forall>ls. exclusion_log_file eng1 = Some (Open ls) \<longrightarrow>
      exclusion_log_file (engine_after out) = Some (Closed ls))"
  by (auto simp: sort_patients_def file_close_def split: sum.splits if_splits option.splits)

lemma load_patients_index: "map patient_index (load_patients rows) = [0..<length rows]"
proof -
  have "map patient_index (load_patients rows) = map fst (enumerate 0 rows)"
    by (simp add: load_patients_def split_beta comp_def)
  then show ?thesis by (simp only: map_fst_enumerate add_0)
qed

lemma load_patients_data: "map patient_data (load_patients rows) = rows"
proof -
  have "map patient_data (load_patients rows) = map snd (enumerate 0 rows)"
    by (simp add: load_patients_def split_beta comp_def)
  then show ?thesis by (simp only: map_snd_enumerate)
qed

lemma insert_desc_sorted:
  "sorted_wrt ranks_before ys \<Longrightarrow> \<forall>y\<in>set ys. patient_index x < patient_index y \<Longrightarrow>
   sorted_wrt ranks_before (insert_desc x ys)"
proof (induction ys)
  case Nil
  then show ?case by simp
next
  case (Cons y ys)
  show ?case
  proof (cases "score x \<ge> score y")
    case True
    have "ranks_before x z" if "z \<in> set (y # ys)" for z
    proof -
      from that Cons.prems(1) have "score y \<ge> score z"
        by (auto simp: ranks_before_def)
      with True have "score x \<ge> score z" by simp
      moreover from that Cons.prems(2) have "patient_index x < patient_index z" by blast
      ultimately show ?thesis by (auto simp: ranks_before_def)
    qed
    with True Cons.prems(1) show ?thesis by simp
  next
    case False
    from Cons have "sorted_wrt ranks_before (insert_desc x ys)" by simp
    moreover from False have "ranks_before y x" by (simp add: ranks_before_def)
    moreover from Cons.prems(1) have "\<forall>z\<in>set ys. ranks_before y z" by simp
    ultimately show ?thesis using False by (simp add: set_insert_desc)
  qed
qed

lemma sort_desc_sorted:
  "sorted_wrt (\<lambda>a b. patient_index a < patient_index b) ps \<Longrightarrow>
   sorted_wrt ranks_before (sort_desc ps)"
proof (induction ps)
  case Nil
  then show ?case by (simp add: sort_desc_def)
next
  case (Cons p ps)
  then have "sorted_wrt ranks_before (sort_desc ps)" by simp
  moreover from Cons.prems have "\<forall>y\<in>set (sort_desc ps). patient_index p < patient_index y"
    by (simp add: set_sort_desc)
  ultimately have "sorted_wrt ranks_before (insert_desc p (sort_desc ps))"
    by (rule insert_desc_sorted)
  then show ?case by (simp add: sort_desc_def)
qed

lemma index_sorted:
  assumes "map patient_index ps = [0..<n]"
  shows "sorted_wrt (\<lambda>a b. patient_index a < patient_index b) ps"
proof -
  have "sorted_wrt (<) (map patient_index ps)" unfolding assms by simp
  then show ?thesis by (simp add: sorted_wrt_map)
qed

lemma apply_inclusion_without_other:
  "apply_inclusion lit p (filter (\<lambda>c. \<not> is_other (in_rule c)) cs) s = apply_inclusion lit p cs s"
proof (induction cs arbitrary: s)
  case Nil
  then show ?case by simp
next
  case (Cons c cs)
  then show ?case by (cases "in_rule c") (simp_all split: sum.splits)
qed

lemma apply_exclusion_without_other:
  "apply_exclusion lit io p (filter (\<lambda>c. \<not> is_other (ex_rule c)) cs) fl
     = apply_exclusion lit io p cs fl"
proof (induction cs)
  case Nil
  then show ?case by simp
next
  case (Cons c cs)
  then show ?case by (cases "ex_rule c") (simp_all split: sum.splits)
qed

lemma score_patient_without_other:
  assumes "same_but_rules e2 e1"
  shows "(\<forall>e. score_patient lit io e1 p = Inl e \<longrightarrow> score_patient lit io e2 p = Inl e) \<and>
         (\<forall>p' e1'. score_patient lit io e1 p = Inr (p', e1') \<longrightarrow>
            (\<exists>e2'. score_patient lit io e2 p = Inr (p', e2') \<and> same_but_rules e2' e1'))"
proof -
  from assms have r: "rules e2 = without_other (rules e1)"
    and f: "exclusion_log_file e2 = exclusion_log_file e1"
    and s: "patient_scores e2 = patient_scores e1" and l: "log_folder e2 = log_folder e1"
    by (simp_all add: same_but_rules_def)
  have inc: "apply_inclusion lit p (inclusion_criterium (rules e2)) 0
      = apply_inclusion lit p (inclusion_criterium (rules e1)) 0"
    unfolding r by (simp add: without_other_def apply_inclusion_without_other)
  have exc: "apply_exclusion lit io q (exclusion_criterium (rules e2)) (exclusion_log_file e2)
      = apply_exclusion lit io q (exclusion_criterium (rules e1)) (exclusion_log_file e1)" for q
    unfolding r f by (simp add: without_other_def apply_exclusion_without_other)
  show ?thesis
    unfolding score_patient_def inc exc
    by (auto split: sum.splits simp: same_but_rules_def r f s l)
qed

lemma score_patients_without_other:
  "same_but_rules e2 e1 \<Longrightarrow>
   (\<forall>e. score_patients lit io e1 ps = Inl e \<longrightarrow> score_patients lit io e2 ps = Inl e) \<and>
   (\<forall>ps' e1'. score_patients lit io e1 ps = Inr (ps', e1') \<longrightarrow>
      (\<exists>e2'. score_patients lit io e2 ps = Inr (ps', e2') \<and> same_but_rules e2' e1'))"
proof (induction ps arbitrary: e1 e2)
  case Nil
  then show ?case by simp
next
  case (Cons p ps)
  note one = score_patient_without_other [OF Cons.prems, of lit io p]
  show ?case
  proof (cases "score_patient lit io e1 p")
    case (Inl e)
    with one show ?thesis by simp
  next
    case (Inr res)
    obtain p' e1' where res: "res = (p', e1')" by (cases res)
    with Inr one obtain e2' where two: "score_patient lit io e2 p = Inr (p', e2')"
      and same: "same_but_rules e2' e1'" by blast
    note rest = Cons.IH [OF same]
    show ?thesis
    proof (cases "score_patients lit io e1' ps")
      case (Inl e)
      with rest Inr res two show ?thesis by simp
    next
      case (Inr res')
      obtain ps' e1'' where res': "res' = (ps', e1'')" by (cases res')
      with Inr rest obtain e2'' where "score_patients lit io e2' ps = Inr (ps', e2'')"
        and "same_but_rules e2'' e1''" by blast
      with Inr res' \<open>score_patient lit io e1 p = Inr res\<close> res two show ?thesis by simp
    qed
  qed
qed

lemma sort_patients_without_other:
  assumes "same_but_rules e2 e1"
  shows "map_sum id observable (sort_patients lit io e2 rows)
       = map_sum id observable (sort_patients lit io e1 rows)"
proof (cases "score_patients lit io e1 (load_patients rows)")
  case (Inl e)
  with score_patients_without_other [OF assms, of lit io "load_patients rows"]
  have "score_patients lit io e2 (load_patients rows) = Inl e" by simp
  with Inl show ?thesis by (simp add: sort_patients_def)
next
  case (Inr res)
  obtain ps e1' where res: "res = (ps, e1')" by (cases res)
  with Inr score_patients_without_other [OF assms, of lit io "load_patients rows"]
  obtain e2' where two: "score_patients lit io e2 (load_patients rows) = Inr (ps, e2')"
    and same: "same_but_rules e2' e1'" by blast
  from same have "log_folder e2' = log_folder e1'" "exclusion_log_file e2' = exclusion_log_file e1'"
    "patient_scores e2' = patient_scores e1'" by (simp_all add: same_but_rules_def)
  with Inr res two show ?thesis
    by (simp add: sort_patients_def observable_def split: option.splits sum.splits)
qed

lemma other_only_inclusion:
  "\<forall>c\<in>set cs. is_other (in_rule c) \<Longrightarrow> apply_inclusion lit p cs s = Inr s"
proof (induction cs)
  case Nil
  then show ?case by simp
next
  case (Cons c cs)
  then show ?case by (cases "in_rule c") simp_all
qed

lemma other_only_exclusion:
  "\<forall>c\<in>set cs. is_other (ex_rule c) \<Longrightarrow> apply_exclusion lit io p cs fl = Inr (p, fl)"
proof (induction cs)
  case Nil
  then show ?case by simp
next
  case (Cons c cs)
  then show ?case by (cases "ex_rule c") simp_all
qed

section \<open>The evaluators\<close>

lemma card_study_set: "card (PStr ` study_codes study) = card (study_codes study)"
  by (rule card_image) (simp add: inj_on_def)

lemma study_codes_empty: "study_codes study = {} \<longleftrightarrow> study = []"
  by (simp add: study_codes_def)

lemma card_study_codes_pos: "card (study_codes study) > 0 \<longleftrightarrow> study \<noteq> []"
  by (simp add: study_codes_def card_gt_0_iff)

lemma preexisting_conditions_unfold:
  "preexisting_conditions lit p study =
     (case col_icd9_codes (patient_data p) of
        CStr text \<Rightarrow>
          (case lit (lower (strip text)) of
             Inl e \<Rightarrow> Inl e
           | Inr items \<Rightarrow>
               Inr (if study = [] then 0
                    else of_nat (card (set items \<inter> PStr ` study_codes study))
                         / of_nat (card (study_codes study))))
      | _ \<Rightarrow> Inl AttributeError)"
proof -
  have eq: "PStr ` set (map (\<lambda>x. lower (strip x)) study) = PStr ` study_codes study"
    by (simp add: study_codes_def)
  show ?thesis
    unfolding preexisting_conditions_def Let_def eq card_study_set card_study_codes_pos
    by (simp split: cell.splits sum.splits)
qed

lemma ratio_bounded:
  "0 \<le> (of_nat (card (A \<inter> PStr ` study_codes study)) :: rat) / of_nat (card (study_codes study)) \<and>
   (of_nat (card (A \<inter> PStr ` study_codes study)) :: rat) / of_nat (card (study_codes study)) \<le> 1"
proof -
  have "finite (PStr ` study_codes study)" by (simp add: study_codes_def)
  then have "card (A \<inter> PStr ` study_codes study) \<le> card (PStr ` study_codes study)"
    by (intro card_mono) auto
  then have le: "card (A \<inter> PStr ` study_codes study) \<le> card (study_codes study)"
    by (simp add: card_study_set)
  show ?thesis
  proof (cases "card (study_codes study) = 0")
    case True
    then show ?thesis by simp
  next
    case False
    with le show ?thesis by (simp add: divide_le_eq_1)
  qed
qed

lemma preexisting_conditions_bounded:
  assumes "preexisting_conditions lit p study = Inr v"
  shows "0 \<le> v \<and> v \<le> 1"
proof -
  from assms obtain field items where "col_icd9_codes (patient_data p) = CStr field"
    "lit (lower (strip field)) = Inr items"
    and v: "v = (if study = [] then 0
                else of_nat (card (set items \<inter> PStr ` study_codes study))
                     / of_nat (card (study_codes study)))"
    unfolding preexisting_conditions_unfold by (auto split: cell.splits sum.splits)
  show ?thesis
  proof (cases "study = []")
    case True
    with v show ?thesis by simp
  next
    case False
    with v ratio_bounded [of "set items" study] show ?thesis by simp
  qed
qed


lemma score_patients_open:
  "score_patients lit io eng ps = Inr (ps', eng') \<Longrightarrow> exclusion_log_file eng = Some (Open ls) \<Longrightarrow>
   \<exists>ls'. exclusion_log_file eng' = Some (Open ls')"
  by (drule score_patients_log) simp

lemma scan_entries_count:
  "scan_entries med entries m = m + length (filter (\<lambda>e. str_in med (strip (lower e))) entries)"
  by (induction entries arbitrary: m) simp_all

lemma scan_medications_lists:
  "columns p = [CList a, CList b, CList c] \<Longrightarrow>
   scan_medications p meds m = Inr (m + count_matches meds (a @ b @ c))"
  by (induction meds arbitrary: m) (simp_all add: count_matches_def scan_entries_count)

lemma medications_on_lists:
  "columns p = [CList a, CList b, CList c] \<Longrightarrow>
   medications p meds =
     Inr (if meds = [] then 0 else of_nat (count_matches meds (a @ b @ c)) / of_nat (length meds))"
  by (simp add: medications_def scan_medications_lists)

section \<open>The sample run\<close>

lemma sample_run:
  "sort_patients literal_eval io_good (Engine sample_doc (Some ''logs'')) sample_rows
     = Inr (sample_outcome (Some ''logs''))"
  by code_simp

lemma sample_run_unlogged:
  "sort_patients literal_eval io_good (Engine sample_doc None) sample_rows
     = Inr (sample_outcome None)"
  by code_simp

section \<open>Claims about the score of a patient\<close>

text \<open>
  C1. For every patient scored in a run that returns, the evaluators of all inclusion
  entries returned values \<open>vs\<close>, and the final score is the sum, taken over the inclusion
  entries in document order and starting from 0, of the evaluator's value times the
  entry's weight, whenever no exclusion rule is violated; if some exclusion rule is
  violated, the final score is 0, whatever the inclusion entries had accumulated.
\<close>

theorem final_score:
  assumes "sort_patients lit io eng rows = Inr out" and "q \<in> set (ranking out)"
  shows "\<exists>vs. map (\<lambda>c. evaluator_value lit q (in_rule c)) (inclusion_criterium (rules eng)) = map Inr vs \<and>
     ((\<forall>c\<in>set (exclusion_criterium (rules eng)). violated lit q (ex_rule c) = Inr False) \<or>
      (\<exists>c\<in>set (exclusion_criterium (rules eng)). violated lit q (ex_rule c) = Inr True)) \<and>
     ((\<forall>c\<in>set (exclusion_criterium (rules eng)). violated lit q (ex_rule c) = Inr False) \<longrightarrow>
        score q = weighted_sum vs (inclusion_criterium (rules eng))) \<and>
     ((\<exists>c\<in>set (exclusion_criterium (rules eng)). violated lit q (ex_rule c) = Inr True) \<longrightarrow>
        score q = 0)"
proof -
  from sort_patients_scored [OF assms(1)] obtain ps eng1 where
    ps: "score_patients lit io eng (load_patients rows) = Inr (ps, eng1)" by blast
  from sort_patients_ranking [OF assms(1) ps] have "ranking out = sort_desc ps" by simp
  with assms(2) have "q \<in> set ps" by (simp add: set_sort_desc)
  from score_patients_each [OF ps this] obtain p e1 e2 where
    r: "rules e1 = rules eng" and one: "score_patient lit io e1 p = Inr (q, e2)" by blast
  from score_patient_engine [OF one] have pd: "patient_data q = patient_data p" by simp
  have ev: "evaluator_value lit q = evaluator_value lit p"
    by (rule ext) (rule evaluator_value_cong [OF pd])
  have vi: "violated lit q = violated lit p"
    by (rule ext) (rule violated_cong [OF pd])
  show ?thesis using score_patient_final [OF one] unfolding r ev vi .
qed

theorem final_score_witness:
  "sort_patients literal_eval io_good (Engine sample_doc (Some ''logs'')) sample_rows
     = Inr (sample_outcome (Some ''logs'')) \<and>
   sample_patient 1 row1 (1 / 2) \<in> set (ranking (sample_outcome (Some ''logs''))) \<and>
   (\<exists>vs. map (\<lambda>c. evaluator_value literal_eval (sample_patient 1 row1 (1 / 2)) (in_rule c))
            (inclusion_criterium sample_doc) = map Inr vs \<and>
         score (sample_patient 1 row1 (1 / 2)) = weighted_sum vs (inclusion_criterium sample_doc)) \<and>
   sample_patient 2 row2 0 \<in> set (ranking (sample_outcome (Some ''logs''))) \<and>
   score (sample_patient 2 row2 0) = 0"
proof -
  let ?eng = "Engine sample_doc (Some ''logs'')"
  have r: "rules ?eng = sample_doc" by (simp add: Engine_def)
  have m1: "sample_patient 1 row1 (1 / 2) \<in> set (ranking (sample_outcome (Some ''logs'')))"
    and m2: "sample_patient 2 row2 0 \<in> set (ranking (sample_outcome (Some ''logs'')))"
    by (simp_all add: sample_outcome_def sample_ranking_def)
  have free: "\<forall>c\<in>set (exclusion_criterium sample_doc).
      violated literal_eval (sample_patient 1 row1 (1 / 2)) (ex_rule c) = Inr False"
    by code_simp
  have hit: "\<exists>c\<in>set (exclusion_criterium sample_doc).
      violated literal_eval (sample_patient 2 row2 0) (ex_rule c) = Inr True"
    by code_simp
  from final_score [OF sample_run m1] free
  have a: "\<exists>vs. map (\<lambda>c. evaluator_value literal_eval (sample_patient 1 row1 (1 / 2)) (in_rule c))
            (inclusion_criterium sample_doc) = map Inr vs \<and>
         score (sample_patient 1 row1 (1 / 2)) = weighted_sum vs (inclusion_criterium sample_doc)"
    unfolding r by blast
  from final_score [OF sample_run m2] hit
  have b: "score (sample_patient 2 row2 0) = 0" unfolding r by blast
  from sample_run m1 m2 a b show ?thesis by blast
qed

section \<open>Claims about the exclusion rules\<close>

text \<open>
  The claim C2 as the specification states it promises a log line for every excluded
  patient. An engine constructed without a log folder opens no log file: in the sample
  run without a folder, patient 2 violates the hypertension rule and ends with score 0,
  and no line is written.
\<close>

theorem exclusion_log_counterexample:
  "sort_patients literal_eval io_good (Engine sample_doc None) sample_rows
     = Inr (sample_outcome None) \<and>
   sample_patient 2 row2 0 \<in> set (ranking (sample_outcome None)) \<and>
   violated literal_eval (sample_patient 2 row2 0) (PreexistingConditions [''401.9'']) = Inr True \<and>
   exclusion_log_file (engine_after (sample_outcome None)) = None"
proof -
  have "sample_patient 2 row2 0 \<in> set (ranking (sample_outcome None))"
    by (simp add: sample_outcome_def sample_ranking_def)
  moreover have "violated literal_eval (sample_patient 2 row2 0)
      (PreexistingConditions [''401.9'']) = Inr True"
    by code_simp
  moreover have "exclusion_log_file (engine_after (sample_outcome None)) = None"
    by (simp add: sample_outcome_def truthy_def)
  ultimately show ?thesis using sample_run_unlogged by blast
qed

text \<open>
  C2, amended. For every patient the exclusion rules are checked in document order and
  checking stops at the first violated rule, where an age or gender rule is violated
  exactly when its evaluator returns 0 and a medications or preexisting-conditions rule
  exactly when its evaluator returns a value above 0 (\<open>violated\<close>): when the entries before
  an entry are not violated and the entry is, the loop does what \<open>exclude\<close> does with the
  reason of that entry, whatever follows it; when no entry is violated the patient and the
  log are left as they were. In a run of an engine constructed with a log folder, the log
  holds, in the order the patients were read, one line for every excluded patient, the
  reason of the first rule the patient violates, and nothing else; an engine constructed
  without a log folder writes no line.
\<close>

theorem exclusion_log_first_match:
  assumes "sort_patients lit io (Engine rs folder) rows = Inr out"
  shows "exclusion_log_file (engine_after out) =
      (if truthy folder
       then Some (Closed (concat (map (\<lambda>p. log_line lit p (exclusion_criterium rs))
                                    (load_patients rows))))
       else None) \<and>
     (\<forall>p pre c post fl. (\<forall>d\<in>set pre. violated lit p (ex_rule d) = Inr False) \<and>
        violated lit p (ex_rule c) = Inr True \<longrightarrow>
        (\<exists>r. reason_of p (ex_rule c) = Some r \<and> log_line lit p (pre @ c # post) = [r] \<and>
             apply_exclusion lit io p (pre @ c # post) fl = exclude io p r fl)) \<and>
     (\<forall>p cs fl. (\<forall>c\<in>set cs. violated lit p (ex_rule c) = Inr False) \<longrightarrow>
        log_line lit p cs = [] \<and> apply_exclusion lit io p cs fl = Inr (p, fl))"
proof -
  from sort_patients_scored [OF assms] obtain ps eng1 where
    ps: "score_patients lit io (Engine rs folder) (load_patients rows) = Inr (ps, eng1)" by blast
  have "rules (Engine rs folder) = rs" by (simp add: Engine_def)
  with score_patients_log [OF ps] sort_patients_log [OF assms ps]
  have log: "exclusion_log_file (engine_after out) =
      (if truthy folder
       then Some (Closed (concat (map (\<lambda>p. log_line lit p (exclusion_criterium rs))
                                    (load_patients rows))))
       else None)"
    by (simp add: Engine_def)
  have first: "\<exists>r. reason_of p (ex_rule c) = Some r \<and> log_line lit p (pre @ c # post) = [r] \<and>
             apply_exclusion lit io p (pre @ c # post) fl = exclude io p r fl"
    if a: "\<forall>d\<in>set pre. violated lit p (ex_rule d) = Inr False"
      and b: "violated lit p (ex_rule c) = Inr True" for p pre c post fl
  proof -
    from apply_exclusion_first [OF a b] obtain r where r: "reason_of p (ex_rule c) = Some r"
      and e: "apply_exclusion lit io p (pre @ c # post) fl = exclude io p r fl" by blast
    from first_violated_split [OF a b] r have "log_line lit p (pre @ c # post) = [r]"
      by (simp add: log_line_def)
    with r e show ?thesis by blast
  qed
  have none: "log_line lit p cs = [] \<and> apply_exclusion lit io p cs fl = Inr (p, fl)"
    if a: "\<forall>c\<in>set cs. violated lit p (ex_rule c) = Inr False" for p cs fl
    using first_violated_none [OF a] apply_exclusion_none [OF a] by (simp add: log_line_def)
  from log first none show ?thesis by blast
qed

theorem exclusion_log_first_match_witness:
  "sort_patients literal_eval io_good (Engine sample_doc (Some ''logs'')) sample_rows
     = Inr (sample_outcome (Some ''logs'')) \<and>
   exclusion_log_file (engine_after (sample_outcome (Some ''logs''))) = Some (Closed sample_lines) \<and>
   violated literal_eval (sample_patient 3 row3 0) (PreexistingConditions [''401.9'']) = Inr True \<and>
   violated literal_eval (sample_patient 3 row3 0) (Age None (Some 80)) = Inr True \<and>
   log_line literal_eval (sample_patient 3 row3 0) (exclusion_criterium sample_doc)
     = [ConditionsReason 3 (CStr ''['401.9']'') [''401.9'']] \<and>
   log_line literal_eval (sample_patient 0 row0 1) (exclusion_criterium sample_doc) = [] \<and>
   apply_exclusion literal_eval io_good (sample_patient 0 row0 1) (exclusion_criterium sample_doc)
     (Some (Open [])) = Inr (sample_patient 0 row0 1, Some (Open []))"
proof -
  note main = exclusion_log_first_match [OF sample_run]
  have lines: "concat (map (\<lambda>p. log_line literal_eval p (exclusion_criterium sample_doc))
      (load_patients sample_rows)) = sample_lines"
    by code_simp
  from main have "exclusion_log_file (engine_after (sample_outcome (Some ''logs''))) =
      (if truthy (Some ''logs'')
       then Some (Closed (concat (map (\<lambda>p. log_line literal_eval p (exclusion_criterium sample_doc))
                                    (load_patients sample_rows))))
       else None)"
    by blast
  then have a: "exclusion_log_file (engine_after (sample_outcome (Some ''logs'')))
      = Some (Closed sample_lines)"
    unfolding lines by (simp add: truthy_def)
  have pre: "\<forall>d\<in>set [Exclusion (Other ''other'')].
      violated literal_eval (sample_patient 3 row3 0) (ex_rule d) = Inr False"
    by simp
  have v1: "violated literal_eval (sample_patient 3 row3 0)
      (ex_rule (Exclusion (PreexistingConditions [''401.9'']))) = Inr True"
    by code_simp
  have v2: "violated literal_eval (sample_patient 3 row3 0) (Age None (Some 80)) = Inr True"
    by code_simp
  from main pre v1 have "\<exists>r. reason_of (sample_patient 3 row3 0)
        (ex_rule (Exclusion (PreexistingConditions [''401.9'']))) = Some r \<and>
      log_line literal_eval (sample_patient 3 row3 0)
        ([Exclusion (Other ''other'')] @ Exclusion (PreexistingConditions [''401.9''])
           # [Exclusion (Age None (Some 80))]) = [r]"
    by blast
  then have b: "log_line literal_eval (sample_patient 3 row3 0) (exclusion_criterium sample_doc)
      = [ConditionsReason 3 (CStr ''['401.9']'') [''401.9'']]"
    by (auto simp: sample_doc_def sample_patient_def row3_def sample_row_def)
  have free: "\<forall>c\<in>set (exclusion_criterium sample_doc).
      violated literal_eval (sample_patient 0 row0 1) (ex_rule c) = Inr False"
    by code_simp
  with main have c: "log_line literal_eval (sample_patient 0 row0 1) (exclusion_criterium sample_doc) = [] \<and>
      apply_exclusion literal_eval io_good (sample_patient 0 row0 1) (exclusion_criterium sample_doc)
        (Some (Open [])) = Inr (sample_patient 0 row0 1, Some (Open []))"
    by blast
  from sample_run a b c v1 v2 show ?thesis by simp
qed

section \<open>Claims about the evaluators\<close>

text \<open>
  C3. The specification has the medications evaluator count, for every target, the list
  entries of the three prescription fields that contain the target, and gives the score 3
  for the entries "furosemide", "furosemide iv" and "insulin furosemide" against the
  target "furosemide". The evaluator iterates over the cell as it is. For a cell that
  holds a list it counts the entries (\<open>medications_on_lists\<close>, 3 in the example). The cell
  that \<^verbatim>\<open>pd.read_csv\<close> hands to the engine is the text of the list, which the evaluator does
  not parse (the conditions evaluator does parse its cell): the loop runs over the
  characters of the text, no character contains the target, and the score is 0. In the
  same way an exclusion rule on "aspirin" leaves a patient on "aspirin 81mg" included.
\<close>

theorem medications_csv_cell:
  "medications furosemide_csv [''furosemide''] = Inr 0 \<and>
   medications furosemide_list [''furosemide''] = Inr 3 \<and>
   apply_exclusion literal_eval io_good aspirin_csv [Exclusion (Medications [''aspirin''])] None
     = Inr (aspirin_csv, None)"
  by code_simp

text \<open>
  C4. For every patient and every pair of optional bounds, \<open>age\<close> returns 0 if the minimum is
  given and the patient's age is strictly below it, 0 if the maximum is given and the
  patient's age is strictly above it, and 1 otherwise; with both bounds absent it returns 1
  for any age. For the bounds 58 and 70: age 57 gives 0, ages 58 and 70 give 1, age 71
  gives 0.
\<close>

theorem age_bounds:
  "((\<exists>m. mn = Some m \<and> col_age (patient_data p) < m) \<longrightarrow> age p mn mx = 0) \<and>
   ((\<exists>m. mx = Some m \<and> col_age (patient_data p) > m) \<longrightarrow> age p mn mx = 0) \<and>
   (\<not> (\<exists>m. mn = Some m \<and> col_age (patient_data p) < m) \<and>
    \<not> (\<exists>m. mx = Some m \<and> col_age (patient_data p) > m) \<longrightarrow> age p mn mx = 1) \<and>
   age p None None = 1 \<and>
   (col_age (patient_data p) = 57 \<longrightarrow> age p (Some 58) (Some 70) = 0) \<and>
   (col_age (patient_data p) = 58 \<longrightarrow> age p (Some 58) (Some 70) = 1) \<and>
   (col_age (patient_data p) = 70 \<longrightarrow> age p (Some 58) (Some 70) = 1) \<and>
   (col_age (patient_data p) = 71 \<longrightarrow> age p (Some 58) (Some 70) = 0)"
  by (cases mn; cases mx) (simp_all add: age_def Let_def)

theorem age_bounds_witness:
  "age (aged 57) (Some 58) (Some 70) = 0 \<and> age (aged 58) (Some 58) (Some 70) = 1 \<and>
   age (aged 70) (Some 58) (Some 70) = 1 \<and> age (aged 71) (Some 58) (Some 70) = 0 \<and>
   age (aged 71) (Some 58) None = 1 \<and> age (aged 57) None (Some 70) = 1 \<and>
   age (aged 57) None None = 1"
  using age_bounds [of "Some 58" "aged 57" "Some 70"] age_bounds [of "Some 58" "aged 58" "Some 70"]
    age_bounds [of "Some 58" "aged 70" "Some 70"] age_bounds [of "Some 58" "aged 71" "Some 70"]
    age_bounds [of "Some 58" "aged 71" None] age_bounds [of None "aged 57" "Some 70"]
    age_bounds [of None "aged 57" None]
  by (simp add: aged_def sample_patient_def sample_row_def)

text \<open>
  C6. The specification has the preexisting-conditions evaluator parse the patient's
  string-encoded ICD-9 list into a set of lower-cased, trimmed codes
  (\<open>preexisting_conditions_spec\<close>) and compare it with the set of lower-cased, trimmed study
  codes. The engine's comment announces that it standardises the codes for clean string
  matching, and it trims and lower-cases every study code; on the patient's side it trims
  and lower-cases the text of the cell before it parses it, so the codes inside are
  lower-cased but never trimmed. A blank inside the quotes of a patient code stays in the
  code: the patient code 401.9 written with a leading blank no longer matches the study
  code 401.9, and the score is 0 where the specification gives 1. The same blanks in a study
  code, or around the text of the cell, are removed and the codes match.
\<close>

theorem preexisting_conditions_untrimmed:
  "preexisting_conditions literal_eval (coded (CStr ''[' 401.9']'')) [''401.9''] = Inr 0 \<and>
   preexisting_conditions_spec literal_eval (coded (CStr ''[' 401.9']'')) [''401.9''] = Inr 1 \<and>
   preexisting_conditions literal_eval (coded (CStr ''['401.9']'')) ['' 401.9 ''] = Inr 1 \<and>
   preexisting_conditions literal_eval (coded (CStr '' ['401.9'] '')) [''401.9''] = Inr 1"
  by code_simp

text \<open>
  What the evaluator computes on every input. It trims and lower-cases the text of the
  patient's ICD-9 cell, parses it as a literal and takes the set of its items; it raises
  when the cell is not a string or the text does not parse. It compares that set with the
  set of the trimmed, lower-cased study codes and returns the size of the intersection over
  the number of distinct study codes, 0 when the study list is empty. A value it returns is
  between 0 and 1. The patient codes 401.9 and 272.4 against the study codes 401.9 and
  250.0 give 1/2.
\<close>

theorem preexisting_conditions_ratio:
  "preexisting_conditions lit p study =
     (case col_icd9_codes (patient_data p) of
        CStr text \<Rightarrow>
          (case lit (lower (strip text)) of
             Inl e \<Rightarrow> Inl e
           | Inr items \<Rightarrow>
               Inr (if study = [] then 0
                    else of_nat (card (set items \<inter> PStr ` study_codes study))
                         / of_nat (card (study_codes study))))
      | _ \<Rightarrow> Inl AttributeError) \<and>
   (\<forall>v. preexisting_conditions lit p study = Inr v \<longrightarrow> 0 \<le> v \<and> v \<le> 1) \<and>
   preexisting_conditions literal_eval (coded (CStr ''['401.9', '272.4']''))
     [''401.9'', ''250.0''] = Inr (1 / 2)"
proof -
  have "preexisting_conditions literal_eval (coded (CStr ''['401.9', '272.4']''))
     [''401.9'', ''250.0''] = Inr (1 / 2)" by code_simp
  with preexisting_conditions_unfold [of lit p study] preexisting_conditions_bounded [of lit p study]
  show ?thesis by blast
qed

theorem preexisting_conditions_ratio_witness:
  "preexisting_conditions literal_eval (coded (CStr ''['401.9', '272.4']''))
     [''401.9'', ''250.0''] = Inr (1 / 2) \<and>
   (0::rat) \<le> 1 / 2 \<and> (1 / 2 :: rat) \<le> 1 \<and>
   preexisting_conditions literal_eval (coded (CStr ''['401.9', '272.4']'')) [] = Inr 0"
proof -
  note main = preexisting_conditions_ratio [of literal_eval "coded (CStr ''['401.9', '272.4']'')"]
  from main [of "[''401.9'', ''250.0'']"]
  have a: "preexisting_conditions literal_eval (coded (CStr ''['401.9', '272.4']''))
     [''401.9'', ''250.0''] = Inr (1 / 2)" by blast
  with main [of "[''401.9'', ''250.0'']"] have b: "(0::rat) \<le> 1 / 2 \<and> (1 / 2 :: rat) \<le> 1"
    by blast
  have "literal_eval (lower (strip ''['401.9', '272.4']'')) = Inr [PStr ''401.9'', PStr ''272.4'']"
    by code_simp
  with main [of "[]"]
  have c: "preexisting_conditions literal_eval (coded (CStr ''['401.9', '272.4']'')) [] = Inr 0"
    by (simp add: coded_def sample_patient_def sample_row_def)
  from a b c show ?thesis by blast
qed




section \<open>Claims about the run\<close>

text \<open>
  C5. The list a run returns is sorted by score in descending order, and two patients with
  the same final score stand in it in the order in which they were read: the one with the
  smaller patient index first. The list holds every patient of the table once.
\<close>

theorem ranking_sorted_stable:
  assumes "sort_patients lit io eng rows = Inr out"
  shows "sorted_wrt (\<lambda>a b. score a \<ge> score b) (ranking out) \<and>
     (\<forall>i j. i < j \<and> j < length (ranking out) \<and>
        score (ranking out ! i) = score (ranking out ! j) \<longrightarrow>
        patient_index (ranking out ! i) < patient_index (ranking out ! j)) \<and>
     length (ranking out) = length rows \<and>
     patient_index ` set (ranking out) = {0..<length rows}"
proof -
  from sort_patients_scored [OF assms] obtain ps eng1 where
    ps: "score_patients lit io eng (load_patients rows) = Inr (ps, eng1)" by blast
  from sort_patients_ranking [OF assms ps] have rk: "ranking out = sort_desc ps" by simp
  from score_patients_engine [OF ps] have idx: "map patient_index ps = [0..<length rows]"
    by (simp add: load_patients_index)
  from sort_desc_sorted [OF index_sorted [OF idx]] rk
  have srt: "sorted_wrt ranks_before (ranking out)" by simp
  have "sorted_wrt (\<lambda>a b. score a \<ge> score b) (ranking out)"
    by (rule sorted_wrt_mono_rel [OF _ srt]) (auto simp: ranks_before_def)
  moreover have "patient_index (ranking out ! i) < patient_index (ranking out ! j)"
    if "i < j" "j < length (ranking out)" "score (ranking out ! i) = score (ranking out ! j)" for i j
  proof -
    from srt that(1,2) have "ranks_before (ranking out ! i) (ranking out ! j)"
      by (simp add: sorted_wrt_iff_nth_less)
    with that(3) show ?thesis by (simp add: ranks_before_def)
  qed
  moreover from idx have "length ps = length rows" by (metis length_map length_upt minus_nat.diff_0)
  with rk have "length (ranking out) = length rows" by (simp add: length_sort_desc)
  moreover have "patient_index ` set (ranking out) = {0..<length rows}"
  proof -
    have "patient_index ` set ps = set (map patient_index ps)" by simp
    also have "\<dots> = {0..<length rows}" unfolding idx by simp
    finally show ?thesis by (simp add: rk set_sort_desc)
  qed
  ultimately show ?thesis by blast
qed

theorem ranking_sorted_stable_witness:
  "sort_patients literal_eval io_good (Engine sample_doc (Some ''logs'')) sample_rows
     = Inr (sample_outcome (Some ''logs'')) \<and>
   map patient_index (ranking (sample_outcome (Some ''logs''))) = [0, 4, 1, 2, 3] \<and>
   map score (ranking (sample_outcome (Some ''logs''))) = [1, 1, 1 / 2, 0, 0] \<and>
   sorted_wrt (\<lambda>a b. score a \<ge> score b) (ranking (sample_outcome (Some ''logs''))) \<and>
   patient_index (ranking (sample_outcome (Some ''logs'')) ! 0)
     < patient_index (ranking (sample_outcome (Some ''logs'')) ! 1) \<and>
   patient_index (ranking (sample_outcome (Some ''logs'')) ! 3)
     < patient_index (ranking (sample_outcome (Some ''logs'')) ! 4)"
proof -
  note main = ranking_sorted_stable [OF sample_run]
  have idx: "map patient_index (ranking (sample_outcome (Some ''logs''))) = [0, 4, 1, 2, 3]"
    and sc: "map score (ranking (sample_outcome (Some ''logs''))) = [1, 1, 1 / 2, 0, 0]"
    by (simp_all add: sample_outcome_def sample_ranking_def sample_patient_def)
  have len: "length (ranking (sample_outcome (Some ''logs''))) = 5"
    by (simp add: sample_outcome_def sample_ranking_def)
  from sc have eq01: "score (ranking (sample_outcome (Some ''logs'')) ! 0)
      = score (ranking (sample_outcome (Some ''logs'')) ! 1)"
    and eq34: "score (ranking (sample_outcome (Some ''logs'')) ! 3)
      = score (ranking (sample_outcome (Some ''logs'')) ! 4)"
    by (simp_all add: sample_outcome_def sample_ranking_def sample_patient_def)
  from main have srt: "sorted_wrt (\<lambda>a b. score a \<ge> score b) (ranking (sample_outcome (Some ''logs'')))"
    by blast
  from main have st: "\<forall>i j. i < j \<and> j < length (ranking (sample_outcome (Some ''logs''))) \<and>
        score (ranking (sample_outcome (Some ''logs'')) ! i)
          = score (ranking (sample_outcome (Some ''logs'')) ! j) \<longrightarrow>
        patient_index (ranking (sample_outcome (Some ''logs'')) ! i)
          < patient_index (ranking (sample_outcome (Some ''logs'')) ! j)"
    by blast
  from st [rule_format, of 0 1] eq01 len
  have a: "patient_index (ranking (sample_outcome (Some ''logs'')) ! 0)
     < patient_index (ranking (sample_outcome (Some ''logs'')) ! 1)" by simp
  from st [rule_format, of 3 4] eq34 len
  have b: "patient_index (ranking (sample_outcome (Some ''logs'')) ! 3)
     < patient_index (ranking (sample_outcome (Some ''logs'')) ! 4)" by simp
  from sample_run idx sc srt a b show ?thesis by blast
qed

text \<open>
  C7. An entry whose rule type is "other", or any type the engine has no evaluator for,
  does not make the run fail and changes nothing: the run of a rule document returns and
  writes what the run of the document without these entries returns and writes, or raises
  as it does. In the inclusion loop such an entry adds nothing to the score; in the
  exclusion loop no evaluator is called for it and the loop goes on to the next entry. A
  document of such entries alone leaves the score where it was and excludes nobody.
\<close>

theorem unsupported_rules_ignored:
  "map_sum id observable (sort_patients lit io (Engine (without_other rs) folder) rows)
     = map_sum id observable (sort_patients lit io (Engine rs folder) rows) \<and>
   apply_inclusion lit p (Inclusion (Other t) w # incl) s = apply_inclusion lit p incl s \<and>
   apply_exclusion lit io p (Exclusion (Other t) # excl) fl = apply_exclusion lit io p excl fl \<and>
   ((\<forall>c\<in>set incl. is_other (in_rule c)) \<longrightarrow> apply_inclusion lit p incl s = Inr s) \<and>
   ((\<forall>c\<in>set excl. is_other (ex_rule c)) \<longrightarrow> apply_exclusion lit io p excl fl = Inr (p, fl))"
proof -
  have "same_but_rules (Engine (without_other rs) folder) (Engine rs folder)"
    by (simp add: same_but_rules_def Engine_def)
  from sort_patients_without_other [OF this] other_only_inclusion other_only_exclusion
  show ?thesis by simp
qed

theorem unsupported_rules_ignored_witness:
  "map_sum id observable
     (sort_patients literal_eval io_good (Engine (without_other sample_doc) (Some ''logs''))
        sample_rows) = Inr (observable (sample_outcome (Some ''logs''))) \<and>
   without_other sample_doc =
     \<lparr>inclusion_criterium =
        [Inclusion (Age (Some 50) None) (1 / 2), Inclusion (Gender 1) (1 / 2)],
      exclusion_criterium =
        [Exclusion (PreexistingConditions [''401.9'']), Exclusion (Age None (Some 80))]\<rparr> \<and>
   apply_inclusion literal_eval (aged 60)
     [Inclusion (Other ''other'') 1, Inclusion (Other ''smoker'') (1 / 2)] (1 / 4) = Inr (1 / 4) \<and>
   apply_exclusion literal_eval io_good (aged 60)
     [Exclusion (Other ''other''), Exclusion (Other ''smoker'')] None = Inr (aged 60, None)"
proof -
  note main = unsupported_rules_ignored [of literal_eval io_good sample_doc "Some ''logs''"
      sample_rows "aged 60" "''other''" 1
      "[Inclusion (Other ''other'') 1, Inclusion (Other ''smoker'') (1 / 2)]" "1 / 4"
      "[Exclusion (Other ''other''), Exclusion (Other ''smoker'')]" None]
  from main sample_run
  have a: "map_sum id observable
     (sort_patients literal_eval io_good (Engine (without_other sample_doc) (Some ''logs''))
        sample_rows) = Inr (observable (sample_outcome (Some ''logs'')))"
    by simp
  have b: "without_other sample_doc =
     \<lparr>inclusion_criterium =
        [Inclusion (Age (Some 50) None) (1 / 2), Inclusion (Gender 1) (1 / 2)],
      exclusion_criterium =
        [Exclusion (PreexistingConditions [''401.9'']), Exclusion (Age None (Some 80))]\<rparr>"
    by (simp add: without_other_def sample_doc_def)
  have only: "\<forall>c\<in>set [Inclusion (Other ''other'') 1, Inclusion (Other ''smoker'') (1 / 2)].
      is_other (in_rule c)"
    "\<forall>c\<in>set [Exclusion (Other ''other''), Exclusion (Other ''smoker'')]. is_other (ex_rule c)"
    by simp_all
  with main have c: "apply_inclusion literal_eval (aged 60)
     [Inclusion (Other ''other'') 1, Inclusion (Other ''smoker'') (1 / 2)] (1 / 4) = Inr (1 / 4)"
    and d: "apply_exclusion literal_eval io_good (aged 60)
     [Exclusion (Other ''other''), Exclusion (Other ''smoker'')] None = Inr (aged 60, None)"
    by blast+
  from a b c d show ?thesis by blast
qed

text \<open>
  C8. In a run of a newly constructed engine that returns, a score-log entry with the
  patient's index, subject id, first name, last name and final score is recorded for every
  patient, excluded or not: the entries stand in the order in which the patients were
  read, one per row of the table, whatever the order of the returned ranking. The rows
  written to the score file, when the engine has a log folder, are these entries.
\<close>

theorem score_log_rows:
  assumes "sort_patients lit io (Engine rs folder) rows = Inr out"
  shows "length (patient_scores (engine_after out)) = length rows \<and>
     (\<forall>i<length rows.
        log_patient_index (patient_scores (engine_after out) ! i) = i \<and>
        log_subject_id (patient_scores (engine_after out) ! i) = col_subject_id (rows ! i) \<and>
        log_first_name (patient_scores (engine_after out) ! i) = col_first_name (rows ! i) \<and>
        log_last_name (patient_scores (engine_after out) ! i) = col_last_name (rows ! i) \<and>
        (\<exists>q\<in>set (ranking out). patient_index q = i \<and>
           log_score (patient_scores (engine_after out) ! i) = score q)) \<and>
     scores_csv out =
       (if truthy folder then Some (patient_scores (engine_after out)) else None)"
proof -
  from sort_patients_scored [OF assms] obtain ps eng1 where
    ps: "score_patients lit io (Engine rs folder) (load_patients rows) = Inr (ps, eng1)" by blast
  note rk = sort_patients_ranking [OF assms ps]
  note en = score_patients_engine [OF ps]
  have fresh: "patient_scores (Engine rs folder) = []" "log_folder (Engine rs folder) = folder"
    by (simp_all add: Engine_def)
  from en fresh rk have log: "patient_scores (engine_after out) = map score_row ps"
    and csv: "scores_csv out = (if truthy folder then Some (patient_scores (engine_after out)) else None)"
    by simp_all
  from en have idx: "map patient_index ps = [0..<length rows]"
    and dat: "map patient_data ps = rows"
    by (simp_all add: load_patients_index load_patients_data)
  from dat have len: "length ps = length rows" by (metis length_map)
  have row: "log_patient_index (map score_row ps ! i) = i \<and>
        log_subject_id (map score_row ps ! i) = col_subject_id (rows ! i) \<and>
        log_first_name (map score_row ps ! i) = col_first_name (rows ! i) \<and>
        log_last_name (map score_row ps ! i) = col_last_name (rows ! i) \<and>
        (\<exists>q\<in>set (ranking out). patient_index q = i \<and> log_score (map score_row ps ! i) = score q)"
    if i: "i < length rows" for i
  proof -
    from i len have "patient_index (ps ! i) = map patient_index ps ! i"
      "patient_data (ps ! i) = map patient_data ps ! i" by simp_all
    with i have pi: "patient_index (ps ! i) = i" and pd: "patient_data (ps ! i) = rows ! i"
      unfolding idx dat by simp_all
    from i len rk have "ps ! i \<in> set (ranking out)" by (simp add: set_sort_desc)
    with pi pd i len show ?thesis by (auto simp: score_row_def)
  qed
  from log csv len row show ?thesis by simp
qed

theorem score_log_rows_witness:
  "sort_patients literal_eval io_good (Engine sample_doc (Some ''logs'')) sample_rows
     = Inr (sample_outcome (Some ''logs'')) \<and>
   length (patient_scores (engine_after (sample_outcome (Some ''logs'')))) = length sample_rows \<and>
   scores_csv (sample_outcome (Some ''logs''))
     = Some (patient_scores (engine_after (sample_outcome (Some ''logs'')))) \<and>
   map log_patient_index (patient_scores (engine_after (sample_outcome (Some ''logs''))))
     = [0, 1, 2, 3, 4] \<and>
   map log_score (patient_scores (engine_after (sample_outcome (Some ''logs''))))
     = [1, 1 / 2, 0, 0, 1] \<and>
   map patient_index (ranking (sample_outcome (Some ''logs''))) = [0, 4, 1, 2, 3] \<and>
   log_subject_id (patient_scores (engine_after (sample_outcome (Some ''logs''))) ! 2)
     = col_subject_id (sample_rows ! 2)"
proof -
  note main = score_log_rows [OF sample_run]
  from main have "\<forall>i<length sample_rows.
      log_subject_id (patient_scores (engine_after (sample_outcome (Some ''logs''))) ! i)
        = col_subject_id (sample_rows ! i)"
    by blast
  moreover have "2 < length sample_rows" by (simp add: sample_rows_def)
  ultimately have d: "log_subject_id (patient_scores (engine_after (sample_outcome (Some ''logs''))) ! 2)
     = col_subject_id (sample_rows ! 2)"
    by blast
  from main have a: "length (patient_scores (engine_after (sample_outcome (Some ''logs''))))
      = length sample_rows" by blast
  from main have "scores_csv (sample_outcome (Some ''logs'')) =
       (if truthy (Some ''logs'')
        then Some (patient_scores (engine_after (sample_outcome (Some ''logs'')))) else None)"
    by blast
  then have b: "scores_csv (sample_outcome (Some ''logs''))
     = Some (patient_scores (engine_after (sample_outcome (Some ''logs''))))"
    by (simp add: truthy_def)
  have c: "map log_patient_index (patient_scores (engine_after (sample_outcome (Some ''logs''))))
     = [0, 1, 2, 3, 4]"
    "map log_score (patient_scores (engine_after (sample_outcome (Some ''logs''))))
     = [1, 1 / 2, 0, 0, 1]"
    "map patient_index (ranking (sample_outcome (Some ''logs''))) = [0, 4, 1, 2, 3]"
    by (simp_all add: sample_outcome_def sample_scored_def sample_ranking_def sample_patient_def
        score_row_def)
  from sample_run a b c d show ?thesis by blast
qed

text \<open>
  The claim C9 as the specification states it has the ranking returned when writing the
  logs fails. In the sample run the five patients are scored; when the write of the score
  file fails, or the close of the exclusion log, the call raises the error and returns
  nothing.
\<close>

theorem log_write_failure_counterexample:
  "map_sum id fst
     (score_patients literal_eval io_csv_fails (Engine sample_doc (Some ''logs''))
        (load_patients sample_rows)) = Inr sample_scored \<and>
   sort_patients literal_eval io_csv_fails (Engine sample_doc (Some ''logs'')) sample_rows
     = Inl OSError \<and>
   sort_patients literal_eval io_close_fails (Engine sample_doc (Some ''logs'')) sample_rows
     = Inl OSError"
  by code_simp

text \<open>
  C9, amended. If writing the score file or closing the exclusion log fails at the end of
  a run, the error is raised to the caller and the call returns no ranking: an engine with
  a log folder whose score file cannot be written, and an engine with an open exclusion log
  that cannot be closed, never return a list; when all patients were scored and the score
  file cannot be written, the call raises the error of that write.
\<close>

theorem log_write_failure_raises:
  "(truthy (log_folder eng) \<and> \<not> to_csv_ok io \<longrightarrow> (\<exists>e. sort_patients lit io eng rows = Inl e)) \<and>
   ((\<exists>ls. exclusion_log_file eng = Some (Open ls)) \<and> \<not> close_ok io \<longrightarrow>
      (\<exists>e. sort_patients lit io eng rows = Inl e)) \<and>
   (\<forall>ps eng1. score_patients lit io eng (load_patients rows) = Inr (ps, eng1) \<and>
      truthy (log_folder eng) \<and> \<not> to_csv_ok io \<longrightarrow> sort_patients lit io eng rows = Inl OSError)"
proof -
  have csv: "sort_patients lit io eng rows = Inl OSError"
    if "score_patients lit io eng (load_patients rows) = Inr (ps, eng1)"
      "truthy (log_folder eng)" "\<not> to_csv_ok io" for ps eng1
  proof -
    from score_patients_engine [OF that(1)] that(2) have "truthy (log_folder eng1)" by simp
    with that(1,3) show ?thesis by (simp add: sort_patients_def)
  qed
  have a: "\<exists>e. sort_patients lit io eng rows = Inl e" if "truthy (log_folder eng)" "\<not> to_csv_ok io"
  proof (cases "score_patients lit io eng (load_patients rows)")
    case (Inl e)
    then show ?thesis by (simp add: sort_patients_def)
  next
    case (Inr res)
    obtain ps eng1 where "res = (ps, eng1)" by (cases res)
    with Inr csv that show ?thesis by blast
  qed
  have b: "\<exists>e. sort_patients lit io eng rows = Inl e"
    if "exclusion_log_file eng = Some (Open ls)" "\<not> close_ok io" for ls
  proof (cases "score_patients lit io eng (load_patients rows)")
    case (Inl e)
    then show ?thesis by (simp add: sort_patients_def)
  next
    case (Inr res)
    obtain ps eng1 where res: "res = (ps, eng1)" by (cases res)
    with Inr score_patients_open [OF _ that(1)] obtain ls' where
      "exclusion_log_file eng1 = Some (Open ls')" by blast
    with Inr res that(2) show ?thesis
      by (auto simp: sort_patients_def file_close_def split: sum.splits)
  qed
  from a b csv show ?thesis by blast
qed

theorem log_write_failure_raises_witness:
  "truthy (log_folder (Engine sample_doc (Some ''logs''))) \<and> \<not> to_csv_ok io_csv_fails \<and>
   (\<exists>e. sort_patients literal_eval io_csv_fails (Engine sample_doc (Some ''logs'')) sample_rows
          = Inl e) \<and>
   exclusion_log_file (Engine sample_doc (Some ''logs'')) = Some (Open []) \<and>
   \<not> close_ok io_close_fails \<and>
   (\<exists>e. sort_patients literal_eval io_close_fails (Engine sample_doc (Some ''logs'')) sample_rows
          = Inl e)"
proof -
  have a: "truthy (log_folder (Engine sample_doc (Some ''logs'')))" "\<not> to_csv_ok io_csv_fails"
    "exclusion_log_file (Engine sample_doc (Some ''logs'')) = Some (Open [])"
    "\<not> close_ok io_close_fails"
    by (simp_all add: Engine_def truthy_def io_csv_fails_def io_close_fails_def)
  from log_write_failure_raises [of "Engine sample_doc (Some ''logs'')" io_csv_fails
      literal_eval sample_rows] a
  have b: "\<exists>e. sort_patients literal_eval io_csv_fails (Engine sample_doc (Some ''logs''))
      sample_rows = Inl e" by blast
  from log_write_failure_raises [of "Engine sample_doc (Some ''logs'')" io_close_fails
      literal_eval sample_rows] a
  have c: "\<exists>e. sort_patients literal_eval io_close_fails (Engine sample_doc (Some ''logs''))
      sample_rows = Inl e" by blast
  from a b c show ?thesis by blast
qed

end
